theory Spec2Isabelle
  imports Complex_Main "HOL-Library.Sublist"
begin

section \<open>Floating-point cells\<close>

text \<open>
  Every raster cell of \<^verbatim>\<open>ndvi_app.py\<close> is a double (\<^verbatim>\<open>dtype="float"\<close> in
  \<^verbatim>\<open>stackstac.stack\<close>, \<^verbatim>\<open>.astype(float)\<close> on both bands).  A cell is modelled as
  one of the four kinds of IEEE-754 value that the program can tell apart: the no-data
  sentinel NaN, the two infinities, and a finite number.  Finite numbers are real numbers:
  rounding, overflow and the sign of zero are not modelled, so an arithmetic result is the
  exact quotient or sum where the machine has the nearest double.
\<close>

datatype f64 = NaN | NegInf | Finite real | PosInf

fun isnan :: "f64 \<Rightarrow> bool" where
  "isnan NaN = True"
| "isnan _ = False"

fun fneg :: "f64 \<Rightarrow> f64" where
  "fneg NaN = NaN"
| "fneg NegInf = PosInf"
| "fneg (Finite a) = Finite (- a)"
| "fneg PosInf = NegInf"

fun fadd :: "f64 \<Rightarrow> f64 \<Rightarrow> f64" where
  "fadd NaN _ = NaN"
| "fadd _ NaN = NaN"
| "fadd PosInf NegInf = NaN"
| "fadd NegInf PosInf = NaN"
| "fadd PosInf _ = PosInf"
| "fadd _ PosInf = PosInf"
| "fadd NegInf _ = NegInf"
| "fadd _ NegInf = NegInf"
| "fadd (Finite a) (Finite b) = Finite (a + b)"

definition fsub :: "f64 \<Rightarrow> f64 \<Rightarrow> f64" where
  "fsub a b = fadd a (fneg b)"

text \<open>
  Division as numpy performs it on doubles (warnings are silenced by
  \<^verbatim>\<open>warnings.filterwarnings("ignore")\<close>, and numpy never raises here):
  \<open>0 / 0\<close> and \<open>inf / inf\<close> are NaN, a non-zero number over zero is an infinity.
\<close>

fun fdiv :: "f64 \<Rightarrow> f64 \<Rightarrow> f64" where
  "fdiv NaN _ = NaN"
| "fdiv _ NaN = NaN"
| "fdiv (Finite a) (Finite b) =
     (if b = 0 then (if a = 0 then NaN else if 0 < a then PosInf else NegInf)
      else Finite (a / b))"
| "fdiv (Finite a) _ = Finite 0"
| "fdiv PosInf (Finite b) = (if b < 0 then NegInf else PosInf)"
| "fdiv NegInf (Finite b) = (if b < 0 then PosInf else NegInf)"
| "fdiv _ _ = NaN"

text \<open>The order of the doubles that are not NaN.\<close>

fun fle :: "f64 \<Rightarrow> f64 \<Rightarrow> bool" where
  "fle NaN _ = False"
| "fle _ NaN = False"
| "fle NegInf _ = True"
| "fle _ PosInf = True"
| "fle (Finite a) (Finite b) = (a \<le> b)"
| "fle _ _ = False"

text \<open>
  \<^verbatim>\<open>np.fmax\<close> and \<^verbatim>\<open>np.fmin\<close>: the larger (smaller) operand, and the other operand when
  one is NaN.  They are the binary steps of the NaN-skipping reductions.
\<close>

fun fmax :: "f64 \<Rightarrow> f64 \<Rightarrow> f64" where
  "fmax NaN b = b"
| "fmax a NaN = a"
| "fmax a b = (if fle a b then b else a)"

fun fmin :: "f64 \<Rightarrow> f64 \<Rightarrow> f64" where
  "fmin NaN b = b"
| "fmin a NaN = a"
| "fmin a b = (if fle a b then a else b)"

section \<open>The index and the temporal composite\<close>

text \<open>
  Python exceptions are values.  Every constructor stands for a subclass of
  \<^verbatim>\<open>Exception\<close>; \<open>Failure\<close> is what a collaborator outside the file (catalog, signing,
  reading of remote rasters) raises.
\<close>

datatype exn = KeyError string | ValueError string | IndexError string | Failure string

text \<open>
  A grid is a list of rows (axis \<open>y\<close>) of cells (axis \<open>x\<close>); a cube has the time axis in
  front.  The clipped stack of line 109 has the axes (time, band, y, x) with the two bands
  \<^verbatim>\<open>B08\<close> and \<^verbatim>\<open>B04\<close>: here each cell of each time slice holds the pair of its two band
  values, so that both bands have one shape by construction.
\<close>

type_synonym grid = "f64 list list"
type_synonym cube = "grid list"
type_synonym stack = "(f64 \<times> f64) list list list"

definition sel_B08 :: "stack \<Rightarrow> cube" where
  "sel_B08 s = map (map (map fst)) s"

definition sel_B04 :: "stack \<Rightarrow> cube" where
  "sel_B04 s = map (map (map snd)) s"

text \<open>Elementwise arithmetic of two arrays of one shape.\<close>

definition grid_map2 :: "(f64 \<Rightarrow> f64 \<Rightarrow> f64) \<Rightarrow> grid \<Rightarrow> grid \<Rightarrow> grid" where
  "grid_map2 f a b = map2 (map2 f) a b"

definition cube_map2 :: "(f64 \<Rightarrow> f64 \<Rightarrow> f64) \<Rightarrow> cube \<Rightarrow> cube \<Rightarrow> cube" where
  "cube_map2 f a b = map2 (grid_map2 f) a b"

text \<open>A grid of \<open>h\<close> rows and \<open>w\<close> columns.\<close>

definition shaped :: "nat \<Rightarrow> nat \<Rightarrow> 'a list list \<Rightarrow> bool" where
  "shaped h w g = (length g = h \<and> (\<forall>r \<in> set g. length r = w))"

text \<open>
  Lines 112-114:
  \<^verbatim>\<open>nir = clipped.sel(band="B08").astype(float)\<close>,
  \<^verbatim>\<open>red = clipped.sel(band="B04").astype(float)\<close>,
  \<^verbatim>\<open>ndvi = (nir - red) / (nir + red)\<close>.
  No operation of the three raises, and there is no guard on the denominator.
\<close>

definition ndvi_of_stack :: "stack \<Rightarrow> cube" where
  "ndvi_of_stack clipped =
     (let nir = sel_B08 clipped; red = sel_B04 clipped
      in cube_map2 fdiv (cube_map2 fsub nir red) (cube_map2 fadd nir red))"

text \<open>
  Line 117: \<^verbatim>\<open>composite = ndvi.max(dim="time")\<close>.  xarray's \<^verbatim>\<open>max\<close> on a float array
  has \<^verbatim>\<open>skipna\<close> on by default, which is numpy's \<^verbatim>\<open>nanmax\<close>: the reduction of the
  leading axis with \<^verbatim>\<open>fmax\<close>, slice by slice.  A reduction over an axis of length zero has
  no identity and raises ValueError.
\<close>

fun max_time :: "cube \<Rightarrow> exn + grid" where
  "max_time [] = Inl (ValueError ''zero-size array to reduction operation fmax which has no identity'')"
| "max_time (g # gs) = Inr (foldl (grid_map2 fmax) g gs)"

section \<open>Statistics and preview\<close>

text \<open>
  The reductions of lines 128-130, \<^verbatim>\<open>ndvi_data.mean()\<close>, \<^verbatim>\<open>.min()\<close> and \<^verbatim>\<open>.max()\<close>, run
  over all cells with \<^verbatim>\<open>skipna\<close> on: \<^verbatim>\<open>nanmean\<close> is the sum of the cells that are not NaN
  over their number, \<^verbatim>\<open>nanmin\<close> and \<^verbatim>\<open>nanmax\<close> reduce with \<^verbatim>\<open>fmin\<close> and \<^verbatim>\<open>fmax\<close>.
\<close>

definition nanmean :: "f64 list \<Rightarrow> f64" where
  "nanmean cells =
     (let valid = filter (\<lambda>c. \<not> isnan c) cells
      in fdiv (foldl fadd (Finite 0) valid) (Finite (real (length valid))))"

fun nanmin :: "f64 list \<Rightarrow> exn + f64" where
  "nanmin [] = Inl (ValueError ''zero-size array to reduction operation fmin which has no identity'')"
| "nanmin (c # cs) = Inr (foldl fmin c cs)"

fun nanmax :: "f64 list \<Rightarrow> exn + f64" where
  "nanmax [] = Inl (ValueError ''zero-size array to reduction operation fmax which has no identity'')"
| "nanmax (c # cs) = Inr (foldl fmax c cs)"

record statistics =
  stat_mean :: f64
  stat_min :: f64
  stat_max :: f64

text \<open>
  Lines 124-131.  \<^verbatim>\<open>np.isnan(ndvi_data.values).all()\<close> is true of a grid with no cell at
  all.  \<open>Inr None\<close> is the \<^verbatim>\<open>return None\<close> of line 125.
\<close>

definition extract_statistics :: "grid \<Rightarrow> exn + statistics option" where
  "extract_statistics ndvi_data =
     (let cells = concat ndvi_data in
      if list_all isnan cells then Inr None
      else
        (case nanmin cells of
           Inl e \<Rightarrow> Inl e
         | Inr lo \<Rightarrow>
             (case nanmax cells of
                Inl e \<Rightarrow> Inl e
              | Inr hi \<Rightarrow>
                  Inr (Some \<lparr>stat_mean = nanmean cells, stat_min = lo, stat_max = hi\<rparr>))))"

text \<open>
  Line 120: \<^verbatim>\<open>composite.coarsen(x=4, y=4, boundary='pad').mean()\<close>.  Each axis is cut
  into windows of four, the last window padded with NaN; a cell of the result is the
  \<^verbatim>\<open>nanmean\<close> of its block of sixteen.
\<close>

fun windows4 :: "'a \<Rightarrow> 'a list \<Rightarrow> 'a list list" where
  "windows4 pad (a # b # c # d # rest) = [a, b, c, d] # windows4 pad rest"
| "windows4 pad [] = []"
| "windows4 pad xs = [xs @ replicate (4 - length xs) pad]"

definition coarsen_mean :: "grid \<Rightarrow> grid" where
  "coarsen_mean g =
     (let width = (case g of [] \<Rightarrow> 0 | r # _ \<Rightarrow> length r)
      in map (\<lambda>rows. map (\<lambda>block. nanmean (concat block))
                        (transpose (map (windows4 NaN) rows)))
             (windows4 (replicate width NaN) g))"

section \<open>Catalog items and the selection of the best scenes\<close>

text \<open>
  What the program reads of a catalog item (a \<^verbatim>\<open>pystac.Item\<close>): its identifier, the
  property \<^verbatim>\<open>eo:cloud_cover\<close> (\<open>None\<close> when the property dictionary has no such key), and
  the hexadecimal well-known-binary text of its footprint, \<^verbatim>\<open>shape(item.geometry).wkb_hex\<close>.
  The acquisition time is a field of every item; no line of the program reads it.
\<close>

record item =
  item_id :: string
  eo_cloud_cover :: "real option"
  acquired :: int
  wkb_hex :: string

text \<open>A list comprehension over a function that may raise stops at the first exception.\<close>

fun traverse :: "('a \<Rightarrow> exn + 'b) \<Rightarrow> 'a list \<Rightarrow> exn + 'b list" where
  "traverse f [] = Inr []"
| "traverse f (x # xs) =
     (case f x of
        Inl e \<Rightarrow> Inl e
      | Inr y \<Rightarrow> (case traverse f xs of Inl e \<Rightarrow> Inl e | Inr ys \<Rightarrow> Inr (y # ys)))"

text \<open>
  Line 77, one row of the frame: \<^verbatim>\<open>item.properties["eo:cloud_cover"]\<close> raises KeyError on
  an item without the key.  A row is (id, cloud, geometry).
\<close>

definition row_of :: "item \<Rightarrow> exn + string \<times> real \<times> string" where
  "row_of it =
     (case eo_cloud_cover it of
        None \<Rightarrow> Inl (KeyError ''eo:cloud_cover'')
      | Some c \<Rightarrow> Inr (item_id it, c, wkb_hex it))"

text \<open>
  \<^verbatim>\<open>idxmin\<close> of one group: the label of the first row, in frame order, whose cloud cover
  is the least of the group.  The argument is the group's rows as (label, cloud), the
  candidate so far in front.
\<close>

fun idxmin_from :: "nat \<times> real \<Rightarrow> (nat \<times> real) list \<Rightarrow> nat" where
  "idxmin_from (i, c) [] = i"
| "idxmin_from (i, c) ((j, d) # rest) =
     (if d < c then idxmin_from (j, d) rest else idxmin_from (i, c) rest)"

definition group_idxmin :: "(nat \<times> real) list \<Rightarrow> nat" where
  "group_idxmin members = (case members of m # ms \<Rightarrow> idxmin_from m ms | [] \<Rightarrow> 0)"

text \<open>
  Line 81, \<^verbatim>\<open>gdf_items.groupby("hash")["cloud"].idxmin()\<close>: the rows carry the labels
  \<open>0, 1, ...\<close> of the default index; there is one group for each hash value, the groups in
  the order of their keys, and each group is never empty.
\<close>

definition groupby_idxmin :: "int list \<Rightarrow> real list \<Rightarrow> nat list" where
  "groupby_idxmin hashes clouds =
     map (\<lambda>k. group_idxmin (map (\<lambda>(l, hk, c). (l, c))
                               (filter (\<lambda>(l, hk, c). hk = k)
                                  (zip [0..<length hashes] (zip hashes clouds)))))
         (sort (remdups hashes))"

text \<open>
  Lines 75-82.  The key of a footprint is Python's built-in \<^verbatim>\<open>hash\<close> of the hexadecimal
  text: a function of the text that is fixed within one interpreter process and not defined
  by this program, so it is a parameter.  \<^verbatim>\<open>gpd.GeoDataFrame([], geometry="geometry")\<close> has
  no geometry column to set and raises ValueError.
\<close>

definition filter_best_items :: "(string \<Rightarrow> int) \<Rightarrow> item list \<Rightarrow> exn + item list" where
  "filter_best_items py_hash items =
     (case traverse row_of items of
        Inl e \<Rightarrow> Inl e
      | Inr rows \<Rightarrow>
          if rows = [] then Inl (ValueError ''Unknown column geometry'')
          else
            (let hashes = map (\<lambda>(i, c, g). py_hash g) rows;
                 clouds = map (\<lambda>(i, c, g). c) rows;
                 best = groupby_idxmin hashes clouds;
                 best_ids = map (\<lambda>l. fst (rows ! l)) best
             in Inr (filter (\<lambda>it. item_id it \<in> set best_ids) items)))"

text \<open>
  What the selection comes to, stated on the key and cloud columns of the frame: row \<open>i\<close>
  is the first row of its group that has the least cloud cover of the group.  The theorems
  on \<open>filter_best_items\<close> compare the code with this.
\<close>

definition first_min_in_group :: "int list \<Rightarrow> real list \<Rightarrow> nat \<Rightarrow> bool" where
  "first_min_in_group ks cs i \<longleftrightarrow>
     i < length ks \<and>
     (\<forall>j < length ks. ks ! j = ks ! i \<longrightarrow>
        (j < i \<longrightarrow> cs ! i < cs ! j) \<and> (i \<le> j \<longrightarrow> cs ! i \<le> cs ! j))"

section \<open>Effects of a run\<close>

text \<open>
  What a run shows to the user, one constructor for each \<^verbatim>\<open>st.error\<close>, \<^verbatim>\<open>st.success\<close>,
  \<^verbatim>\<open>st.info\<close>, \<^verbatim>\<open>st.write\<close> and display call of the program.
\<close>

datatype ui =
    Error_no_aoi
  | Show_aoi
  | Error_area_exceeded real
  | Success_aoi_loaded real
  | Write_available_images nat
  | Error_no_scenes
  | Info_best_scenes nat
  | Error_ndvi_computation exn
  | Error_no_valid_ndvi
  | Show_statistics statistics
  | Show_plot grid
  | Error_analysis exn

text \<open>
  An effect is a message to the user, a search of the catalog, or a reading of the band
  rasters of the selected scenes from their remote assets.
\<close>

datatype effect = St ui | Catalog_search | Read_rasters

text \<open>
  A lazy array (a dask graph over the remote assets) is the function that gives, for the
  number of readings the run has made before, what evaluating the graph returns: the
  array, or the exception of a failed reading.  \<^verbatim>\<open>.compute()\<close> evaluates the graph of the
  object it is called on, from the assets; dask keeps nothing between two calls.
\<close>

type_synonym 'a lazy = "nat \<Rightarrow> exn + 'a"

definition lazy_map :: "('a \<Rightarrow> 'b) \<Rightarrow> 'a lazy \<Rightarrow> 'b lazy" where
  "lazy_map f l = (\<lambda>n. case l n of Inl e \<Rightarrow> Inl e | Inr v \<Rightarrow> Inr (f v))"

definition lazy_bind :: "('a \<Rightarrow> exn + 'b) \<Rightarrow> 'a lazy \<Rightarrow> 'b lazy" where
  "lazy_bind f l = (\<lambda>n. case l n of Inl e \<Rightarrow> Inl e | Inr v \<Rightarrow> f v)"

definition compute :: "'a lazy \<Rightarrow> effect list \<Rightarrow> (exn + 'a) \<times> effect list" where
  "compute l tr = (l (count_list tr Read_rasters), tr @ [Read_rasters])"

section \<open>The workflow\<close>

text \<open>
  A feature of the area of interest, as far as the program looks into it: its text for
  display and the area, in square metres, of its geometry in the equal-area system
  \<^verbatim>\<open>EPSG:6933\<close> (what \<^verbatim>\<open>gdf.to_crs("EPSG:6933").area\<close> holds for its row).
\<close>

record feature =
  wkt :: string
  area_6933 :: real

text \<open>
  The collaborators of a run, all outside the file: Python's \<^verbatim>\<open>hash\<close> of this process,
  the catalog (\<^verbatim>\<open>client.search(...).get_items()\<close> for the bounds of the area, the two
  dates and the cloud limit), \<^verbatim>\<open>planetary_computer.sign\<close>, and lines 91-109, which build
  the lazy stack of the signed items and clip it to the area (\<^verbatim>\<open>stackstac.stack\<close>,
  \<^verbatim>\<open>to_crs\<close>, \<^verbatim>\<open>rio.clip\<close>): they raise, or return the lazy clipped stack.
\<close>

record env =
  py_hash :: "string \<Rightarrow> int"
  search :: "feature list \<Rightarrow> string \<Rightarrow> string \<Rightarrow> nat \<Rightarrow> exn + item list"
  sign :: "item \<Rightarrow> exn + item"
  stack_clip :: "item list \<Rightarrow> feature list \<Rightarrow> exn + stack lazy"

record result =
  ndvi_data :: grid
  ndvi_img :: grid
  statistics :: statistics

text \<open>
  Lines 86-137, the body of the \<^verbatim>\<open>try\<close>.  The preview \<^verbatim>\<open>lowres\<close> is built on the lazy
  \<^verbatim>\<open>composite\<close> and computed first (line 121); \<^verbatim>\<open>composite.compute()\<close> follows (line
  122).  The trace \<open>tr\<close> is passed through.
\<close>

definition workflow_body ::
  "env \<Rightarrow> item list \<Rightarrow> feature list \<Rightarrow> effect list \<Rightarrow> (exn + result option) \<times> effect list" where
  "workflow_body e items original_gdf tr =
     (case traverse (sign e) items of
        Inl x \<Rightarrow> (Inl x, tr)
      | Inr signed \<Rightarrow>
          (case stack_clip e signed original_gdf of
             Inl x \<Rightarrow> (Inl x, tr)
           | Inr clipped \<Rightarrow>
               (let ndvi = lazy_map ndvi_of_stack clipped;
                    composite = lazy_bind max_time ndvi;
                    lowres = lazy_map coarsen_mean composite
                in case compute lowres tr of
                     (Inl x, tr1) \<Rightarrow> (Inl x, tr1)
                   | (Inr img, tr1) \<Rightarrow>
                       (case compute composite tr1 of
                          (Inl x, tr2) \<Rightarrow> (Inl x, tr2)
                        | (Inr data, tr2) \<Rightarrow>
                            (case extract_statistics data of
                               Inl x \<Rightarrow> (Inl x, tr2)
                             | Inr None \<Rightarrow> (Inr None, tr2)
                             | Inr (Some st) \<Rightarrow>
                                 (Inr (Some \<lparr>ndvi_data = data, ndvi_img = img,
                                              statistics = st\<rparr>), tr2))))))"

text \<open>
  Lines 84-141: \<^verbatim>\<open>except Exception as e\<close> shows the exception and returns \<^verbatim>\<open>None\<close>.
  The result keeps the type of a call that could raise, \<open>Inl\<close> being an exception that
  reaches the caller.
\<close>

definition compute_ndvi_workflow ::
  "env \<Rightarrow> item list \<Rightarrow> feature list \<Rightarrow> effect list \<Rightarrow> (exn + result option) \<times> effect list" where
  "compute_ndvi_workflow e items original_gdf tr =
     (case workflow_body e items original_gdf tr of
        (Inl x, tr') \<Rightarrow> (Inr None, tr' @ [St (Error_ndvi_computation x)])
      | (Inr r, tr') \<Rightarrow> (Inr r, tr'))"

section \<open>The run of the analysis\<close>

text \<open>Line 24.\<close>

definition MAX_AREA_KM2 :: real where
  "MAX_AREA_KM2 = 500"

text \<open>
  The inputs of a click on the run button: the uploaded file as \<^verbatim>\<open>gpd.read_file\<close> reads
  it (\<open>None\<close> without an upload, an exception for a file it cannot read), the drawings of
  the map, and the sidebar's dates and cloud limit.
\<close>

record inputs =
  uploaded_file :: "(exn + feature list) option"
  all_drawings :: "feature list"
  start_date :: string
  end_date :: string
  cloud_cover :: nat

text \<open>
  How a block of the script ends: it runs through, \<^verbatim>\<open>st.stop()\<close> ends the script (its
  exception is not an \<^verbatim>\<open>Exception\<close>, so line 207 lets it pass), or an exception is raised.
\<close>

datatype 'a flow = Through 'a | Stopped | Raised exn

text \<open>Lines 60-72.\<close>

definition fetch_items ::
  "env \<Rightarrow> feature list \<Rightarrow> string \<Rightarrow> string \<Rightarrow> nat \<Rightarrow> effect list \<Rightarrow> (exn + item list) \<times> effect list" where
  "fetch_items e gdf d1 d2 cloud_limit tr =
     (case search e gdf d1 d2 cloud_limit of
        Inl x \<Rightarrow> (Inl x, tr @ [Catalog_search])
      | Inr items \<Rightarrow>
          (Inr items,
           if length items > 0 then tr @ [Catalog_search, St (Write_available_images (length items))]
           else tr @ [Catalog_search]))"

text \<open>Lines 147-157.\<close>

definition load_aoi :: "inputs \<Rightarrow> effect list \<Rightarrow> feature list flow \<times> effect list" where
  "load_aoi inp tr =
     (case uploaded_file inp of
        Some (Inl x) \<Rightarrow> (Raised x, tr)
      | Some (Inr gdf) \<Rightarrow> (Through gdf, tr)
      | None \<Rightarrow>
          (case all_drawings inp of
             [] \<Rightarrow> (Stopped, tr @ [St Error_no_aoi])
           | geojson # _ \<Rightarrow> (Through [geojson], tr)))"

text \<open>
  Lines 159-205, after the area of interest is loaded.  \<^verbatim>\<open>gdf.geometry.iloc[0]\<close> raises
  IndexError on a frame without rows; \<^verbatim>\<open>.area[0]\<close> is the area of the row labelled 0,
  the first feature.
\<close>

definition analyse :: "env \<Rightarrow> inputs \<Rightarrow> feature list \<Rightarrow> effect list \<Rightarrow> unit flow \<times> effect list" where
  "analyse e inp gdf tr =
     (case gdf of
        [] \<Rightarrow> (Raised (IndexError ''single positional indexer is out-of-bounds''), tr)
      | first # _ \<Rightarrow>
          (let tr1 = tr @ [St Show_aoi];
               area_km2 = area_6933 first / 1000000
           in if area_km2 > MAX_AREA_KM2
              then (Stopped, tr1 @ [St (Error_area_exceeded area_km2)])
              else
                (case fetch_items e gdf (start_date inp) (end_date inp) (cloud_cover inp)
                        (tr1 @ [St (Success_aoi_loaded area_km2)]) of
                   (Inl x, tr2) \<Rightarrow> (Raised x, tr2)
                 | (Inr items, tr2) \<Rightarrow>
                     if length items = 0 then (Stopped, tr2 @ [St Error_no_scenes])
                     else
                       (case filter_best_items (py_hash e) items of
                          Inl x \<Rightarrow> (Raised x, tr2)
                        | Inr best_items \<Rightarrow>
                            (case compute_ndvi_workflow e best_items gdf
                                    (tr2 @ [St (Info_best_scenes (length best_items))]) of
                               (Inl x, tr3) \<Rightarrow> (Raised x, tr3)
                             | (Inr None, tr3) \<Rightarrow> (Stopped, tr3 @ [St Error_no_valid_ndvi])
                             | (Inr (Some r), tr3) \<Rightarrow>
                                 (Through (),
                                  tr3 @ [St (Show_statistics (statistics r)),
                                         St (Show_plot (ndvi_data r))]))))))"

text \<open>Lines 144-209: the block of the run button, with its \<^verbatim>\<open>except Exception\<close>.\<close>

definition run_analysis :: "env \<Rightarrow> inputs \<Rightarrow> unit flow \<times> effect list" where
  "run_analysis e inp =
     (case (case load_aoi inp [] of
              (Through gdf, tr) \<Rightarrow> analyse e inp gdf tr
            | (Stopped, tr) \<Rightarrow> (Stopped, tr)
            | (Raised x, tr) \<Rightarrow> (Raised x, tr)) of
        (Raised x, tr) \<Rightarrow> (Through (), tr @ [St (Error_analysis x)])
      | (f, tr) \<Rightarrow> (f, tr))"

section \<open>Sample inputs\<close>

text \<open>
  Concrete inputs for the closed theorems.  \<open>sample_hash\<close> stands for the hash of one
  interpreter process; the general theorems hold for every hash function.
\<close>

definition sample_hash :: "string \<Rightarrow> int" where
  "sample_hash s = foldl (\<lambda>a c. (a * 31 + int (of_char c)) mod 2 ^ 61) 0 s"

definition scene :: "string \<Rightarrow> real option \<Rightarrow> int \<Rightarrow> string \<Rightarrow> item" where
  "scene i c t g = \<lparr>item_id = i, eo_cloud_cover = c, acquired = t, wkb_hex = g\<rparr>"

text \<open>
  A catalog with one scene, a signing service that succeeds (or fails, for \<open>False\<close>), and
  remote rasters that read as the given stack at every reading.
\<close>

definition sample_env :: "bool \<Rightarrow> stack \<Rightarrow> env" where
  "sample_env signing_works pixels =
     \<lparr>py_hash = sample_hash,
      search = (\<lambda>gdf d1 d2 limit. Inr [scene ''S2A_T36'' (Some 5) 1 ''0103'']),
      sign = (\<lambda>it. if signing_works then Inr it else Inl (Failure ''sign'')),
      stack_clip = (\<lambda>its gdf. Inr (\<lambda>n. Inr pixels))\<rparr>"

definition sample_upload :: "real list \<Rightarrow> inputs" where
  "sample_upload areas =
     \<lparr>uploaded_file = Some (Inr (map (\<lambda>a. \<lparr>wkt = ''POLYGON'', area_6933 = a\<rparr>) areas)),
      all_drawings = [],
      start_date = ''2024-01-01'', end_date = ''2024-12-31'', cloud_cover = 10\<rparr>"

section \<open>The index, cell by cell\<close>

lemma map2_same: "map2 f (map g xs) (map h xs) = map (\<lambda>x. f (g x) (h x)) xs"
  by (induction xs) simp_all

lemma grid_map2_same:
  "grid_map2 f (map (map g) a) (map (map h) a) = map (map (\<lambda>x. f (g x) (h x))) a"
  unfolding grid_map2_def by (induction a) (simp_all add: map2_same)

lemma cube_map2_same:
  "cube_map2 f (map (map (map g)) s) (map (map (map h)) s) =
     map (map (map (\<lambda>x. f (g x) (h x)))) s"
  unfolding cube_map2_def by (induction s) (simp_all add: grid_map2_same)

lemma ndvi_of_stack_cells:
  "ndvi_of_stack s =
     map (map (map (\<lambda>p. fdiv (fsub (fst p) (snd p)) (fadd (fst p) (snd p))))) s"
  by (simp add: ndvi_of_stack_def sel_B08_def sel_B04_def Let_def cube_map2_same)

text \<open>
  Claim C6.  At every time slice \<open>t\<close>, row \<open>y\<close> and column \<open>x\<close> of the clipped stack, the
  index is the quotient of the difference and the sum of the two band values of that cell,
  in double arithmetic.  Where both are finite and their sum is not zero this is the number
  \<open>(nir - red) / (nir + red)\<close>; near-infrared 100 and red 50 give a third; both bands zero
  give NaN.  The index is a total function of the stack: nothing is raised and no guard
  replaces the NaN.
\<close>

theorem ndvi_every_pixel:
  assumes "t < length s" and "y < length (s ! t)" and "x < length (s ! t ! y)"
  shows "ndvi_of_stack s ! t ! y ! x =
           fdiv (fsub (fst (s ! t ! y ! x)) (snd (s ! t ! y ! x)))
                (fadd (fst (s ! t ! y ! x)) (snd (s ! t ! y ! x)))
       \<and> (\<forall>nir red. s ! t ! y ! x = (Finite nir, Finite red) \<longrightarrow> nir + red \<noteq> 0 \<longrightarrow>
            ndvi_of_stack s ! t ! y ! x = Finite ((nir - red) / (nir + red)))
       \<and> (s ! t ! y ! x = (Finite 100, Finite 50) \<longrightarrow>
            ndvi_of_stack s ! t ! y ! x = Finite (1 / 3))
       \<and> (s ! t ! y ! x = (Finite 0, Finite 0) \<longrightarrow> ndvi_of_stack s ! t ! y ! x = NaN)"
proof -
  have cell: "ndvi_of_stack s ! t ! y ! x =
      fdiv (fsub (fst (s ! t ! y ! x)) (snd (s ! t ! y ! x)))
           (fadd (fst (s ! t ! y ! x)) (snd (s ! t ! y ! x)))"
    using assms by (simp add: ndvi_of_stack_cells)
  show ?thesis
    unfolding cell by (auto simp: fsub_def)
qed

theorem ndvi_every_pixel_witness:
  "ndvi_of_stack [[[(Finite 100, Finite 50), (Finite 0, Finite 0)]]] ! 0 ! 0 ! 0 = Finite (1 / 3)
   \<and> ndvi_of_stack [[[(Finite 100, Finite 50), (Finite 0, Finite 0)]]] ! 0 ! 0 ! 1 = NaN"
  using ndvi_every_pixel [of 0 "[[[(Finite 100, Finite 50), (Finite 0, Finite 0)]]]" 0 0]
        ndvi_every_pixel [of 0 "[[[(Finite 100, Finite 50), (Finite 0, Finite 0)]]]" 0 1]
  by (simp add: fsub_def)

section \<open>The order of the cells and the NaN-skipping maximum\<close>

lemma fle_refl: "\<not> isnan a \<Longrightarrow> fle a a"
  by (cases a) simp_all

lemma fle_trans: "fle a b \<Longrightarrow> fle b c \<Longrightarrow> fle a c"
  by (cases a; cases b; cases c) simp_all

lemma fle_total: "\<not> isnan a \<Longrightarrow> \<not> isnan b \<Longrightarrow> fle a b \<or> fle b a"
  by (cases a; cases b) auto

lemma fmax_cases: "fmax a b = a \<or> fmax a b = b"
  by (cases a; cases b) simp_all

lemma isnan_fmax: "isnan (fmax a b) \<longleftrightarrow> isnan a \<and> isnan b"
  by (cases a; cases b) simp_all

lemma fmax_upper: "\<not> isnan a \<Longrightarrow> fle a (fmax a b)" "\<not> isnan b \<Longrightarrow> fle b (fmax a b)"
  by (cases a; cases b; simp)+

lemma isnan_foldl_fmax: "isnan (foldl fmax a xs) \<longleftrightarrow> isnan a \<and> (\<forall>x \<in> set xs. isnan x)"
  by (induction xs arbitrary: a) (auto simp: isnan_fmax)

lemma foldl_fmax_mem: "foldl fmax a xs \<in> set (a # xs)"
proof (induction xs arbitrary: a)
  case Nil
  then show ?case by simp
next
  case (Cons x xs)
  from Cons.IH [of "fmax a x"] fmax_cases [of a x] show ?case by auto
qed

lemma foldl_fmax_start: "\<not> isnan a \<Longrightarrow> fle a (foldl fmax a xs)"
proof (induction xs arbitrary: a)
  case Nil
  then show ?case by (simp add: fle_refl)
next
  case (Cons x xs)
  have "\<not> isnan (fmax a x)" using Cons.prems by (simp add: isnan_fmax)
  then have "fle (fmax a x) (foldl fmax (fmax a x) xs)" by (rule Cons.IH)
  moreover have "fle a (fmax a x)" using Cons.prems by (rule fmax_upper)
  ultimately show ?case by (auto intro: fle_trans)
qed

lemma foldl_fmax_upper: "v \<in> set (a # xs) \<Longrightarrow> \<not> isnan v \<Longrightarrow> fle v (foldl fmax a xs)"
proof (induction xs arbitrary: a)
  case Nil
  then show ?case by (simp add: fle_refl)
next
  case (Cons x xs)
  show ?case
  proof (cases "v \<in> set xs")
    case True
    then have "v \<in> set (fmax a x # xs)" by simp
    from Cons.IH [OF this Cons.prems(2)] show ?thesis by simp
  next
    case False
    then have "v = a \<or> v = x" using Cons.prems(1) by auto
    then have "fle v (fmax a x)" using Cons.prems(2) fmax_upper by blast
    moreover have "\<not> isnan (fmax a x)" using \<open>v = a \<or> v = x\<close> Cons.prems(2) by (auto simp: isnan_fmax)
    then have "fle (fmax a x) (foldl fmax (fmax a x) xs)" by (rule foldl_fmax_start)
    ultimately show ?thesis by (auto intro: fle_trans)
  qed
qed

lemma shaped_grid_map2:
  "shaped h w a \<Longrightarrow> shaped h w b \<Longrightarrow> shaped h w (grid_map2 f a b)"
  unfolding shaped_def grid_map2_def
  by (auto simp: set_zip)

lemma grid_map2_cell:
  "shaped h w a \<Longrightarrow> shaped h w b \<Longrightarrow> y < h \<Longrightarrow> x < w \<Longrightarrow>
     grid_map2 f a b ! y ! x = f (a ! y ! x) (b ! y ! x)"
  unfolding shaped_def grid_map2_def by simp

lemma foldl_grid_shaped:
  "shaped h w g \<Longrightarrow> \<forall>s \<in> set gs. shaped h w s \<Longrightarrow> shaped h w (foldl (grid_map2 f) g gs)"
  by (induction gs arbitrary: g) (simp_all add: shaped_grid_map2)

lemma foldl_grid_cell:
  "shaped h w g \<Longrightarrow> \<forall>s \<in> set gs. shaped h w s \<Longrightarrow> y < h \<Longrightarrow> x < w \<Longrightarrow>
     foldl (grid_map2 f) g gs ! y ! x = foldl f (g ! y ! x) (map (\<lambda>s. s ! y ! x) gs)"
proof (induction gs arbitrary: g)
  case Nil
  then show ?case by simp
next
  case (Cons s gs)
  have "shaped h w (grid_map2 f g s)" using Cons.prems by (simp add: shaped_grid_map2)
  then have "foldl (grid_map2 f) (grid_map2 f g s) gs ! y ! x =
             foldl f (grid_map2 f g s ! y ! x) (map (\<lambda>s. s ! y ! x) gs)"
    using Cons.prems by (intro Cons.IH) simp_all
  then show ?case using Cons.prems by (simp add: grid_map2_cell)
qed

text \<open>
  Claim C7.  For a cube with at least one time slice, all slices of one shape, the
  composite exists, has the shape of the slices, and at every cell is the NaN-skipping
  maximum of the cell's time series: NaN when the whole series is NaN; otherwise a value
  of the series that is not NaN and that no valid value of the series exceeds.
\<close>

theorem composite_is_nan_skipping_max:
  assumes "ndvi \<noteq> []" and "\<forall>g \<in> set ndvi. shaped h w g" and "y < h" and "x < w"
  shows "\<exists>c. max_time ndvi = Inr c \<and> shaped h w c \<and>
           (if list_all isnan (map (\<lambda>g. g ! y ! x) ndvi) then c ! y ! x = NaN
            else \<not> isnan (c ! y ! x) \<and> c ! y ! x \<in> set (map (\<lambda>g. g ! y ! x) ndvi) \<and>
                 (\<forall>v \<in> set (map (\<lambda>g. g ! y ! x) ndvi). \<not> isnan v \<longrightarrow> fle v (c ! y ! x)))"
proof -
  from assms(1) obtain g gs where ndvi: "ndvi = g # gs" by (cases ndvi) auto
  define c where "c = foldl (grid_map2 fmax) g gs"
  define a where "a = g ! y ! x"
  define ts where "ts = map (\<lambda>s. s ! y ! x) gs"
  have sh: "shaped h w g" "\<forall>s \<in> set gs. shaped h w s" using assms(2) ndvi by auto
  have cell: "c ! y ! x = foldl fmax a ts"
    unfolding c_def a_def ts_def using sh assms(3,4) by (rule foldl_grid_cell)
  have series: "map (\<lambda>g. g ! y ! x) ndvi = a # ts" by (simp add: ndvi a_def ts_def)
  have "max_time ndvi = Inr c" by (simp add: ndvi c_def)
  moreover have "shaped h w c" unfolding c_def using sh by (rule foldl_grid_shaped)
  moreover have "list_all isnan (a # ts) \<Longrightarrow> c ! y ! x = NaN"
  proof -
    assume "list_all isnan (a # ts)"
    then have "isnan (foldl fmax a ts)" by (simp add: isnan_foldl_fmax list_all_iff)
    then show ?thesis unfolding cell by (cases "foldl fmax a ts") simp_all
  qed
  moreover have "\<not> list_all isnan (a # ts) \<Longrightarrow> \<not> isnan (c ! y ! x)"
    unfolding cell by (auto simp: isnan_foldl_fmax list_all_iff)
  moreover have "c ! y ! x \<in> set (a # ts)" unfolding cell by (rule foldl_fmax_mem)
  moreover have "\<forall>v \<in> set (a # ts). \<not> isnan v \<longrightarrow> fle v (c ! y ! x)"
    unfolding cell using foldl_fmax_upper by blast
  ultimately show ?thesis unfolding series by auto
qed

theorem composite_is_nan_skipping_max_witness:
  "(\<exists>c. max_time [[[NaN, NaN]], [[Finite 0.2, NaN]], [[Finite 0.5, NaN]], [[NaN, NaN]]] = Inr c
        \<and> c ! 0 ! 0 = Finite 0.5 \<and> c ! 0 ! 1 = NaN)"
  using composite_is_nan_skipping_max
          [of "[[[NaN, NaN]], [[Finite 0.2, NaN]], [[Finite 0.5, NaN]], [[NaN, NaN]]]" 1 2 0 0]
        composite_is_nan_skipping_max
          [of "[[[NaN, NaN]], [[Finite 0.2, NaN]], [[Finite 0.5, NaN]], [[NaN, NaN]]]" 1 2 0 1]
  by (simp add: shaped_def grid_map2_def)

section \<open>The statistics\<close>

lemma fle_antisym: "fle a b \<Longrightarrow> fle b a \<Longrightarrow> a = b"
  by (cases a; cases b) simp_all

lemma fmin_cases: "fmin a b = a \<or> fmin a b = b"
  by (cases a; cases b) simp_all

lemma isnan_fmin: "isnan (fmin a b) \<longleftrightarrow> isnan a \<and> isnan b"
  by (cases a; cases b) simp_all

lemma fmin_lower: "\<not> isnan a \<Longrightarrow> fle (fmin a b) a" "\<not> isnan b \<Longrightarrow> fle (fmin a b) b"
  by (cases a; cases b; simp)+

lemma isnan_foldl_fmin: "isnan (foldl fmin a xs) \<longleftrightarrow> isnan a \<and> (\<forall>x \<in> set xs. isnan x)"
  by (induction xs arbitrary: a) (auto simp: isnan_fmin)

lemma foldl_fmin_mem: "foldl fmin a xs \<in> set (a # xs)"
proof (induction xs arbitrary: a)
  case Nil
  then show ?case by simp
next
  case (Cons x xs)
  from Cons.IH [of "fmin a x"] fmin_cases [of a x] show ?case by auto
qed

lemma foldl_fmin_start: "\<not> isnan a \<Longrightarrow> fle (foldl fmin a xs) a"
proof (induction xs arbitrary: a)
  case Nil
  then show ?case by (simp add: fle_refl)
next
  case (Cons x xs)
  have "\<not> isnan (fmin a x)" using Cons.prems by (simp add: isnan_fmin)
  then have "fle (foldl fmin (fmin a x) xs) (fmin a x)" by (rule Cons.IH)
  moreover have "fle (fmin a x) a" using Cons.prems by (rule fmin_lower)
  ultimately show ?case by (auto intro: fle_trans)
qed

lemma foldl_fmin_lower: "v \<in> set (a # xs) \<Longrightarrow> \<not> isnan v \<Longrightarrow> fle (foldl fmin a xs) v"
proof (induction xs arbitrary: a)
  case Nil
  then show ?case by (simp add: fle_refl)
next
  case (Cons x xs)
  show ?case
  proof (cases "v \<in> set xs")
    case True
    then have "v \<in> set (fmin a x # xs)" by simp
    from Cons.IH [OF this Cons.prems(2)] show ?thesis by simp
  next
    case False
    then have v: "v = a \<or> v = x" using Cons.prems(1) by auto
    then have "fle (fmin a x) v" using Cons.prems(2) fmin_lower by blast
    moreover have "\<not> isnan (fmin a x)" using v Cons.prems(2) by (auto simp: isnan_fmin)
    then have "fle (foldl fmin (fmin a x) xs) (fmin a x)" by (rule foldl_fmin_start)
    ultimately show ?thesis by (auto intro: fle_trans)
  qed
qed

text \<open>The two reductions of a list with a valid cell, told by what they return.\<close>

lemma nanmin_char:
  assumes "\<exists>c \<in> set cells. \<not> isnan c"
  shows "\<exists>lo. nanmin cells = Inr lo \<and> \<not> isnan lo \<and> lo \<in> set cells \<and>
              (\<forall>c \<in> set cells. \<not> isnan c \<longrightarrow> fle lo c)"
proof -
  from assms obtain a xs where cells: "cells = a # xs" by (cases cells) auto
  have "\<not> isnan (foldl fmin a xs)" using assms by (auto simp: isnan_foldl_fmin cells)
  moreover have "foldl fmin a xs \<in> set cells" unfolding cells by (rule foldl_fmin_mem)
  moreover have "\<forall>c \<in> set cells. \<not> isnan c \<longrightarrow> fle (foldl fmin a xs) c"
    unfolding cells using foldl_fmin_lower by blast
  ultimately show ?thesis by (simp add: cells)
qed

lemma nanmax_char:
  assumes "\<exists>c \<in> set cells. \<not> isnan c"
  shows "\<exists>hi. nanmax cells = Inr hi \<and> \<not> isnan hi \<and> hi \<in> set cells \<and>
              (\<forall>c \<in> set cells. \<not> isnan c \<longrightarrow> fle c hi)"
proof -
  from assms obtain a xs where cells: "cells = a # xs" by (cases cells) auto
  have "\<not> isnan (foldl fmax a xs)" using assms by (auto simp: isnan_foldl_fmax cells)
  moreover have "foldl fmax a xs \<in> set cells" unfolding cells by (rule foldl_fmax_mem)
  moreover have "\<forall>c \<in> set cells. \<not> isnan c \<longrightarrow> fle c (foldl fmax a xs)"
    unfolding cells using foldl_fmax_upper by blast
  ultimately show ?thesis by (simp add: cells)
qed

lemma foldl_fadd_Finite: "foldl fadd (Finite s) (map Finite rs) = Finite (s + sum_list rs)"
  by (induction rs arbitrary: s) (simp_all add: add.assoc)

lemma nanmean_Finite:
  assumes "filter (\<lambda>c. \<not> isnan c) cells = map Finite rs" and "rs \<noteq> []"
  shows "nanmean cells = Finite (sum_list rs / real (length rs))"
  using assms by (simp add: nanmean_def Let_def foldl_fadd_Finite)

lemma nanmean_valid: "nanmean (filter (\<lambda>c. \<not> isnan c) cells) = nanmean cells"
  by (simp add: nanmean_def)

lemma valid_cells_of_valid:
  "set (filter (\<lambda>c. \<not> isnan c) cells) = {c \<in> set cells. \<not> isnan c}"
  by auto

lemma nanmin_valid:
  assumes "\<exists>c \<in> set cells. \<not> isnan c"
  shows "nanmin (filter (\<lambda>c. \<not> isnan c) cells) = nanmin cells"
proof -
  let ?v = "filter (\<lambda>c. \<not> isnan c) cells"
  have v: "\<exists>c \<in> set ?v. \<not> isnan c" using assms by auto
  from nanmin_char [OF assms] obtain lo where lo: "nanmin cells = Inr lo" "\<not> isnan lo"
    "lo \<in> set cells" "\<forall>c \<in> set cells. \<not> isnan c \<longrightarrow> fle lo c" by blast
  from nanmin_char [OF v] obtain lo' where lo': "nanmin ?v = Inr lo'" "\<not> isnan lo'"
    "lo' \<in> set ?v" "\<forall>c \<in> set ?v. \<not> isnan c \<longrightarrow> fle lo' c" by blast
  have "fle lo lo'" using lo(4) lo'(2,3) by auto
  moreover have "fle lo' lo" using lo'(4) lo(2,3) by auto
  ultimately have "lo = lo'" by (rule fle_antisym)
  then show ?thesis by (simp add: lo lo')
qed

lemma nanmax_valid:
  assumes "\<exists>c \<in> set cells. \<not> isnan c"
  shows "nanmax (filter (\<lambda>c. \<not> isnan c) cells) = nanmax cells"
proof -
  let ?v = "filter (\<lambda>c. \<not> isnan c) cells"
  have v: "\<exists>c \<in> set ?v. \<not> isnan c" using assms by auto
  from nanmax_char [OF assms] obtain hi where hi: "nanmax cells = Inr hi" "\<not> isnan hi"
    "hi \<in> set cells" "\<forall>c \<in> set cells. \<not> isnan c \<longrightarrow> fle c hi" by blast
  from nanmax_char [OF v] obtain hi' where hi': "nanmax ?v = Inr hi'" "\<not> isnan hi'"
    "hi' \<in> set ?v" "\<forall>c \<in> set ?v. \<not> isnan c \<longrightarrow> fle c hi'" by blast
  have "fle hi' hi" using hi(4) hi'(2,3) by auto
  moreover have "fle hi hi'" using hi'(4) hi(2,3) by auto
  ultimately have "hi' = hi" by (rule fle_antisym)
  then show ?thesis by (simp add: hi hi')
qed

lemma extract_statistics_none:
  "extract_statistics g = Inr None \<longleftrightarrow> (\<forall>c \<in> set (concat g). isnan c)"
proof (cases "list_all isnan (concat g)")
  case True
  then show ?thesis by (simp add: extract_statistics_def list_all_iff)
next
  case False
  then have ex: "\<exists>c \<in> set (concat g). \<not> isnan c" by (simp add: list_all_iff)
  from nanmin_char [OF ex] obtain lo where lo: "nanmin (concat g) = Inr lo" by blast
  from nanmax_char [OF ex] obtain hi where hi: "nanmax (concat g) = Inr hi" by blast
  have "extract_statistics g \<noteq> Inr None"
    using False by (simp add: extract_statistics_def lo hi)
  moreover have "\<not> (\<forall>c \<in> set (concat g). isnan c)" using ex by blast
  ultimately show ?thesis by blast
qed

text \<open>
  Claim C8.  The extractor returns \<open>None\<close>, the signal of no valid data, exactly when
  every cell of the materialized composite is NaN, and it never raises.  Otherwise it
  returns statistics that are those of the valid cells alone (the grid of the valid cells
  gives the same record): the minimum and the maximum are valid cells that bound every
  valid cell, and where the valid cells are finite the mean is their sum over their
  number.
\<close>

theorem statistics_or_no_valid_data:
  "(extract_statistics g = Inr None \<longleftrightarrow> (\<forall>c \<in> set (concat g). isnan c))
   \<and> (\<forall>e. extract_statistics g \<noteq> Inl e)
   \<and> ((\<exists>c \<in> set (concat g). \<not> isnan c) \<longrightarrow>
        (\<exists>st. extract_statistics g = Inr (Some st)
           \<and> extract_statistics [filter (\<lambda>c. \<not> isnan c) (concat g)] = Inr (Some st)
           \<and> \<not> isnan (stat_min st) \<and> stat_min st \<in> set (concat g)
           \<and> (\<forall>c \<in> set (concat g). \<not> isnan c \<longrightarrow> fle (stat_min st) c)
           \<and> \<not> isnan (stat_max st) \<and> stat_max st \<in> set (concat g)
           \<and> (\<forall>c \<in> set (concat g). \<not> isnan c \<longrightarrow> fle c (stat_max st))
           \<and> (\<forall>rs. filter (\<lambda>c. \<not> isnan c) (concat g) = map Finite rs \<longrightarrow>
                 stat_mean st = Finite (sum_list rs / real (length rs)))))"
proof (intro conjI allI impI)
  show "extract_statistics g = Inr None \<longleftrightarrow> (\<forall>c \<in> set (concat g). isnan c)"
    by (rule extract_statistics_none)
next
  fix e
  show "extract_statistics g \<noteq> Inl e"
  proof (cases "list_all isnan (concat g)")
    case True
    then show ?thesis by (simp add: extract_statistics_def)
  next
    case False
    then have ex: "\<exists>c \<in> set (concat g). \<not> isnan c" by (simp add: list_all_iff)
    from nanmin_char [OF ex] nanmax_char [OF ex] False show ?thesis
      by (auto simp: extract_statistics_def)
  qed
next
  assume ex: "\<exists>c \<in> set (concat g). \<not> isnan c"
  let ?cells = "concat g"
  let ?v = "filter (\<lambda>c. \<not> isnan c) ?cells"
  from nanmin_char [OF ex] obtain lo where lo: "nanmin ?cells = Inr lo" "\<not> isnan lo"
    "lo \<in> set ?cells" "\<forall>c \<in> set ?cells. \<not> isnan c \<longrightarrow> fle lo c" by blast
  from nanmax_char [OF ex] obtain hi where hi: "nanmax ?cells = Inr hi" "\<not> isnan hi"
    "hi \<in> set ?cells" "\<forall>c \<in> set ?cells. \<not> isnan c \<longrightarrow> fle c hi" by blast
  define st where "st = \<lparr>stat_mean = nanmean ?cells, stat_min = lo, stat_max = hi\<rparr>"
  have not_all: "\<not> list_all isnan ?cells" using ex by (simp add: list_all_iff)
  have 1: "extract_statistics g = Inr (Some st)"
    using not_all by (simp add: extract_statistics_def lo hi st_def)
  have not_all_v: "\<not> list_all isnan ?v" using ex by (auto simp: list_all_iff)
  have 2: "extract_statistics [?v] = Inr (Some st)"
    using not_all_v nanmin_valid [OF ex] nanmax_valid [OF ex] nanmean_valid [of ?cells]
    by (simp add: extract_statistics_def lo hi st_def)
  have 3: "\<forall>rs. ?v = map Finite rs \<longrightarrow> stat_mean st = Finite (sum_list rs / real (length rs))"
  proof (intro allI impI)
    fix rs assume rs: "?v = map Finite rs"
    have "?v \<noteq> []" using ex by (auto simp: filter_empty_conv)
    then have "rs \<noteq> []" using rs by auto
    with rs show "stat_mean st = Finite (sum_list rs / real (length rs))"
      by (simp add: st_def nanmean_Finite)
  qed
  show "\<exists>st. extract_statistics g = Inr (Some st)
           \<and> extract_statistics [?v] = Inr (Some st)
           \<and> \<not> isnan (stat_min st) \<and> stat_min st \<in> set ?cells
           \<and> (\<forall>c \<in> set ?cells. \<not> isnan c \<longrightarrow> fle (stat_min st) c)
           \<and> \<not> isnan (stat_max st) \<and> stat_max st \<in> set ?cells
           \<and> (\<forall>c \<in> set ?cells. \<not> isnan c \<longrightarrow> fle c (stat_max st))
           \<and> (\<forall>rs. ?v = map Finite rs \<longrightarrow>
                 stat_mean st = Finite (sum_list rs / real (length rs)))"
    using 1 2 3 lo hi by (intro exI [of _ st]) (simp add: st_def)
qed

theorem statistics_or_no_valid_data_witness:
  "extract_statistics [[NaN, NaN], [NaN, NaN]] = Inr None
   \<and> extract_statistics [[Finite 0.1, Finite 0.2], [Finite 0.3, NaN]] =
       Inr (Some \<lparr>stat_mean = Finite 0.2, stat_min = Finite 0.1, stat_max = Finite 0.3\<rparr>)"
proof -
  have a: "extract_statistics [[NaN, NaN], [NaN, NaN]] = Inr None"
    using statistics_or_no_valid_data [of "[[NaN, NaN], [NaN, NaN]]"] by simp
  have v: "filter (\<lambda>c. \<not> isnan c) (concat [[Finite 0.1, Finite 0.2], [Finite 0.3, NaN]])
             = map Finite [0.1, 0.2, 0.3]"
    by simp
  from statistics_or_no_valid_data [of "[[Finite 0.1, Finite 0.2], [Finite 0.3, NaN]]"]
  obtain st where st: "extract_statistics [[Finite 0.1, Finite 0.2], [Finite 0.3, NaN]] = Inr (Some st)"
    by auto
  then have "st = \<lparr>stat_mean = Finite 0.2, stat_min = Finite 0.1, stat_max = Finite 0.3\<rparr>"
    by (simp add: extract_statistics_def nanmean_def)
  with a st show ?thesis by simp
qed

section \<open>Exceptions inside the workflow\<close>

lemma compute_eq: "compute l tr = (l (count_list tr Read_rasters), tr @ [Read_rasters])"
  by (simp add: compute_def)

lemma count_after_read:
  "count_list (tr @ [Read_rasters]) Read_rasters = Suc (count_list tr Read_rasters)"
  by simp

lemma workflow_total:
  "\<exists>r tr'. compute_ndvi_workflow e items gdf tr = (Inr r, tr')"
proof (cases "workflow_body e items gdf tr")
  case (Pair res tr')
  then show ?thesis by (cases res) (simp_all add: compute_ndvi_workflow_def)
qed

lemma workflow_body_raises:
  "workflow_body e items gdf tr = (Inl x, tr') \<Longrightarrow>
     compute_ndvi_workflow e items gdf tr = (Inr None, tr' @ [St (Error_ndvi_computation x)])"
  by (simp add: compute_ndvi_workflow_def)

lemma body_sign_fails:
  "traverse (sign e) items = Inl x \<Longrightarrow> workflow_body e items gdf tr = (Inl x, tr)"
  by (simp add: workflow_body_def)

lemma body_stack_fails:
  "traverse (sign e) items = Inr signed \<Longrightarrow> stack_clip e signed gdf = Inl x \<Longrightarrow>
     workflow_body e items gdf tr = (Inl x, tr)"
  by (simp add: workflow_body_def)

lemma body_first_read_fails:
  "traverse (sign e) items = Inr signed \<Longrightarrow> stack_clip e signed gdf = Inr clipped \<Longrightarrow>
   clipped (count_list tr Read_rasters) = Inl x \<Longrightarrow>
     workflow_body e items gdf tr = (Inl x, tr @ [Read_rasters])"
  by (simp add: workflow_body_def Let_def compute_eq lazy_map_def lazy_bind_def)

lemma body_max_fails:
  "traverse (sign e) items = Inr signed \<Longrightarrow> stack_clip e signed gdf = Inr clipped \<Longrightarrow>
   clipped (count_list tr Read_rasters) = Inr s1 \<Longrightarrow> max_time (ndvi_of_stack s1) = Inl x \<Longrightarrow>
     workflow_body e items gdf tr = (Inl x, tr @ [Read_rasters])"
  by (simp add: workflow_body_def Let_def compute_eq lazy_map_def lazy_bind_def)

lemma body_second_read_fails:
  "traverse (sign e) items = Inr signed \<Longrightarrow> stack_clip e signed gdf = Inr clipped \<Longrightarrow>
   clipped (count_list tr Read_rasters) = Inr s1 \<Longrightarrow> max_time (ndvi_of_stack s1) = Inr c1 \<Longrightarrow>
   clipped (Suc (count_list tr Read_rasters)) = Inl x \<Longrightarrow>
     workflow_body e items gdf tr = (Inl x, tr @ [Read_rasters, Read_rasters])"
  by (simp add: workflow_body_def Let_def compute_eq lazy_map_def lazy_bind_def)

lemma body_all_nan:
  "traverse (sign e) items = Inr signed \<Longrightarrow> stack_clip e signed gdf = Inr clipped \<Longrightarrow>
   clipped (count_list tr Read_rasters) = Inr s1 \<Longrightarrow> max_time (ndvi_of_stack s1) = Inr c1 \<Longrightarrow>
   clipped (Suc (count_list tr Read_rasters)) = Inr s2 \<Longrightarrow> max_time (ndvi_of_stack s2) = Inr c2 \<Longrightarrow>
   \<forall>c \<in> set (concat c2). isnan c \<Longrightarrow>
     workflow_body e items gdf tr = (Inr None, tr @ [Read_rasters, Read_rasters])"
  by (simp add: workflow_body_def Let_def compute_eq lazy_map_def lazy_bind_def
      extract_statistics_def list_all_iff)


lemma analyse_none:
  assumes "gdf = first # rest" and "\<not> area_6933 first / 1000000 > MAX_AREA_KM2"
    and "fetch_items e gdf (start_date inp) (end_date inp) (cloud_cover inp)
           (tr @ [St Show_aoi, St (Success_aoi_loaded (area_6933 first / 1000000))]) = (Inr items, tr2)"
    and "items \<noteq> []" and "filter_best_items (py_hash e) items = Inr best"
    and "compute_ndvi_workflow e best gdf (tr2 @ [St (Info_best_scenes (length best))]) = (Inr None, tr3)"
  shows "analyse e inp gdf tr = (Stopped, tr3 @ [St Error_no_valid_ndvi])"
  using assms by (simp add: analyse_def Let_def)


lemma caller_cannot_tell:
  assumes "gdf = first # rest" and "area_6933 first / 1000000 \<le> MAX_AREA_KM2"
    and "fetch_items e gdf (start_date inp) (end_date inp) (cloud_cover inp)
           (tr0 @ [St Show_aoi, St (Success_aoi_loaded (area_6933 first / 1000000))])
         = (Inr fetched, tr1)"
    and "fetched \<noteq> []" and "filter_best_items (py_hash e) fetched = Inr items"
    and "fst (compute_ndvi_workflow e items gdf (tr1 @ [St (Info_best_scenes (length items))]))
         = Inr None"
  shows "fst (analyse e inp gdf tr0) = Stopped
       \<and> last (snd (analyse e inp gdf tr0)) = St Error_no_valid_ndvi"
proof -
  let ?w = "compute_ndvi_workflow e items gdf (tr1 @ [St (Info_best_scenes (length items))])"
  obtain tr3 where w: "?w = (Inr None, tr3)" using assms(6) by (cases ?w) simp
  have small: "\<not> area_6933 first / 1000000 > MAX_AREA_KM2" using assms(2) by simp
  from analyse_none [OF assms(1) small assms(3,4,5) w]
  show ?thesis by simp
qed

text \<open>
  Claim C10.  \<open>compute_ndvi_workflow\<close> always returns to its caller: no exception leaves
  it.  Its value is \<open>None\<close> when signing an item raises, when building or clipping the
  stack raises, when the first or the second materialization raises, when the reduction
  of the index raises, and also when every cell of the materialized composite is NaN.
  The caller, having had scenes from the catalog, then stops with the one message
  \<^verbatim>\<open>No valid NDVI data found.\<close> in each of these cases.
\<close>

theorem workflow_returns_none_on_any_failure:
  "(\<exists>r tr'. compute_ndvi_workflow e items gdf tr = (Inr r, tr'))
   \<and> (\<forall>x. traverse (sign e) items = Inl x \<longrightarrow>
          fst (compute_ndvi_workflow e items gdf tr) = Inr None)
   \<and> (\<forall>signed. traverse (sign e) items = Inr signed \<longrightarrow>
        ((\<forall>x. stack_clip e signed gdf = Inl x \<longrightarrow>
            fst (compute_ndvi_workflow e items gdf tr) = Inr None)
         \<and> (\<forall>clipped. stack_clip e signed gdf = Inr clipped \<longrightarrow>
              ((\<forall>x. clipped (count_list tr Read_rasters) = Inl x \<longrightarrow>
                  fst (compute_ndvi_workflow e items gdf tr) = Inr None)
               \<and> (\<forall>s1. clipped (count_list tr Read_rasters) = Inr s1 \<longrightarrow>
                    ((\<forall>x. max_time (ndvi_of_stack s1) = Inl x \<longrightarrow>
                        fst (compute_ndvi_workflow e items gdf tr) = Inr None)
                     \<and> (\<forall>c1. max_time (ndvi_of_stack s1) = Inr c1 \<longrightarrow>
                          ((\<forall>x. clipped (Suc (count_list tr Read_rasters)) = Inl x \<longrightarrow>
                              fst (compute_ndvi_workflow e items gdf tr) = Inr None)
                           \<and> (\<forall>s2 c2. clipped (Suc (count_list tr Read_rasters)) = Inr s2 \<longrightarrow>
                                max_time (ndvi_of_stack s2) = Inr c2 \<longrightarrow>
                                (\<forall>c \<in> set (concat c2). isnan c) \<longrightarrow>
                                fst (compute_ndvi_workflow e items gdf tr) = Inr None)))))))))
   \<and> (\<forall>inp first rest fetched tr0 tr1.
          gdf = first # rest \<longrightarrow> area_6933 first / 1000000 \<le> MAX_AREA_KM2 \<longrightarrow>
          fetch_items e gdf (start_date inp) (end_date inp) (cloud_cover inp)
            (tr0 @ [St Show_aoi, St (Success_aoi_loaded (area_6933 first / 1000000))])
            = (Inr fetched, tr1) \<longrightarrow>
          fetched \<noteq> [] \<longrightarrow> filter_best_items (py_hash e) fetched = Inr items \<longrightarrow>
          tr = tr1 @ [St (Info_best_scenes (length items))] \<longrightarrow>
          fst (compute_ndvi_workflow e items gdf tr) = Inr None \<longrightarrow>
          fst (analyse e inp gdf tr0) = Stopped
          \<and> last (snd (analyse e inp gdf tr0)) = St Error_no_valid_ndvi)"
proof (intro conjI allI impI)
  show "\<exists>r tr'. compute_ndvi_workflow e items gdf tr = (Inr r, tr')"
    by (rule workflow_total)
next
  fix x assume "traverse (sign e) items = Inl x"
  then show "fst (compute_ndvi_workflow e items gdf tr) = Inr None"
    by (simp add: body_sign_fails [THEN workflow_body_raises])
next
  fix signed x assume "traverse (sign e) items = Inr signed" "stack_clip e signed gdf = Inl x"
  then show "fst (compute_ndvi_workflow e items gdf tr) = Inr None"
    by (simp add: body_stack_fails [THEN workflow_body_raises])
next
  fix signed clipped x
  assume "traverse (sign e) items = Inr signed" "stack_clip e signed gdf = Inr clipped"
    "clipped (count_list tr Read_rasters) = Inl x"
  then show "fst (compute_ndvi_workflow e items gdf tr) = Inr None"
    by (simp add: body_first_read_fails [THEN workflow_body_raises])
next
  fix signed clipped s1 x
  assume "traverse (sign e) items = Inr signed" "stack_clip e signed gdf = Inr clipped"
    "clipped (count_list tr Read_rasters) = Inr s1" "max_time (ndvi_of_stack s1) = Inl x"
  then show "fst (compute_ndvi_workflow e items gdf tr) = Inr None"
    by (simp add: body_max_fails [THEN workflow_body_raises])
next
  fix signed clipped s1 c1 x
  assume "traverse (sign e) items = Inr signed" "stack_clip e signed gdf = Inr clipped"
    "clipped (count_list tr Read_rasters) = Inr s1" "max_time (ndvi_of_stack s1) = Inr c1"
    "clipped (Suc (count_list tr Read_rasters)) = Inl x"
  then show "fst (compute_ndvi_workflow e items gdf tr) = Inr None"
    by (simp add: body_second_read_fails [THEN workflow_body_raises])
next
  fix signed clipped s1 c1 s2 c2
  assume "traverse (sign e) items = Inr signed" "stack_clip e signed gdf = Inr clipped"
    "clipped (count_list tr Read_rasters) = Inr s1" "max_time (ndvi_of_stack s1) = Inr c1"
    "clipped (Suc (count_list tr Read_rasters)) = Inr s2" "max_time (ndvi_of_stack s2) = Inr c2"
    "\<forall>c \<in> set (concat c2). isnan c"
  then have "workflow_body e items gdf tr = (Inr None, tr @ [Read_rasters, Read_rasters])"
    by (rule body_all_nan)
  then show "fst (compute_ndvi_workflow e items gdf tr) = Inr None"
    by (simp add: compute_ndvi_workflow_def)
next
  fix inp :: inputs and first rest fetched tr0 tr1
  assume a: "gdf = first # rest" "area_6933 first / 1000000 \<le> MAX_AREA_KM2"
    "fetch_items e gdf (start_date inp) (end_date inp) (cloud_cover inp)
       (tr0 @ [St Show_aoi, St (Success_aoi_loaded (area_6933 first / 1000000))])
     = (Inr fetched, tr1)"
    "fetched \<noteq> []" "filter_best_items (py_hash e) fetched = Inr items"
    "tr = tr1 @ [St (Info_best_scenes (length items))]"
    "fst (compute_ndvi_workflow e items gdf tr) = Inr None"
  from a(7) have n: "fst (compute_ndvi_workflow e items gdf
                            (tr1 @ [St (Info_best_scenes (length items))])) = Inr None"
    unfolding a(6) .
  from caller_cannot_tell [OF a(1,2,3,4,5) n]
  show "fst (analyse e inp gdf tr0) = Stopped" by simp
next
  fix inp :: inputs and first rest fetched tr0 tr1
  assume a: "gdf = first # rest" "area_6933 first / 1000000 \<le> MAX_AREA_KM2"
    "fetch_items e gdf (start_date inp) (end_date inp) (cloud_cover inp)
       (tr0 @ [St Show_aoi, St (Success_aoi_loaded (area_6933 first / 1000000))])
     = (Inr fetched, tr1)"
    "fetched \<noteq> []" "filter_best_items (py_hash e) fetched = Inr items"
    "tr = tr1 @ [St (Info_best_scenes (length items))]"
    "fst (compute_ndvi_workflow e items gdf tr) = Inr None"
  from a(7) have n: "fst (compute_ndvi_workflow e items gdf
                            (tr1 @ [St (Info_best_scenes (length items))])) = Inr None"
    unfolding a(6) .
  from caller_cannot_tell [OF a(1,2,3,4,5) n]
  show "last (snd (analyse e inp gdf tr0)) = St Error_no_valid_ndvi" by simp
qed

theorem workflow_returns_none_on_any_failure_witness:
  "fst (compute_ndvi_workflow (sample_env False [[[(Finite 200, Finite 100)]]])
          [scene ''S2A_T36'' (Some 5) 1 ''0103''] [] []) = Inr None
   \<and> fst (compute_ndvi_workflow (sample_env True [[[(NaN, Finite 100)]]])
          [scene ''S2A_T36'' (Some 5) 1 ''0103''] [] []) = Inr None"
proof -
  have "traverse (sign (sample_env False [[[(Finite 200, Finite 100)]]]))
          [scene ''S2A_T36'' (Some 5) 1 ''0103''] = Inl (Failure ''sign'')"
    by (simp add: sample_env_def)
  moreover have "traverse (sign (sample_env True [[[(NaN, Finite 100)]]]))
          [scene ''S2A_T36'' (Some 5) 1 ''0103''] = Inr [scene ''S2A_T36'' (Some 5) 1 ''0103'']"
    by (simp add: sample_env_def)
  moreover have "stack_clip (sample_env True [[[(NaN, Finite 100)]]])
          [scene ''S2A_T36'' (Some 5) 1 ''0103''] [] = Inr (\<lambda>n. Inr [[[(NaN, Finite 100)]]])"
    by (simp add: sample_env_def)
  moreover have "max_time (ndvi_of_stack [[[(NaN, Finite 100)]]]) = Inr [[NaN]]"
    by (simp add: ndvi_of_stack_cells fsub_def)
  ultimately show ?thesis
    using workflow_returns_none_on_any_failure
            [of "sample_env False [[[(Finite 200, Finite 100)]]]"
                "[scene ''S2A_T36'' (Some 5) 1 ''0103'']" "[]" "[]"]
          workflow_returns_none_on_any_failure
            [of "sample_env True [[[(NaN, Finite 100)]]]"
                "[scene ''S2A_T36'' (Some 5) 1 ''0103'']" "[]" "[]"]
    by simp
qed

section \<open>The area gate\<close>

lemma analyse_area_exceeded:
  assumes "area_6933 first / 1000000 > MAX_AREA_KM2"
  shows "analyse e inp (first # rest) tr =
           (Stopped, tr @ [St Show_aoi, St (Error_area_exceeded (area_6933 first / 1000000))])"
  using assms by (simp add: analyse_def Let_def)

lemma fetch_items_searches:
  "Catalog_search \<in> set (snd (fetch_items e gdf d1 d2 limit tr))"
  by (simp add: fetch_items_def split: sum.split)

lemma fetch_items_extends: "\<exists>more. snd (fetch_items e gdf d1 d2 limit tr) = tr @ more"
  by (simp add: fetch_items_def split: sum.split)

lemma compute_ndvi_workflow_extends:
  "\<exists>more. snd (compute_ndvi_workflow e items gdf tr) = tr @ more"
  by (auto simp: compute_ndvi_workflow_def workflow_body_def Let_def compute_eq
      split: sum.split prod.split option.split)

lemma analyse_area_within:
  assumes "\<not> area_6933 first / 1000000 > MAX_AREA_KM2"
  shows "Catalog_search \<in> set (snd (analyse e inp (first # rest) tr))"
proof -
  let ?tr1 = "tr @ [St Show_aoi, St (Success_aoi_loaded (area_6933 first / 1000000))]"
  let ?f = "fetch_items e (first # rest) (start_date inp) (end_date inp) (cloud_cover inp) ?tr1"
  obtain res tr2 where f: "?f = (res, tr2)" by (cases ?f)
  have s: "Catalog_search \<in> set tr2"
    using fetch_items_searches [of e "first # rest" "start_date inp" "end_date inp" "cloud_cover inp" ?tr1]
    by (simp add: f)
  show ?thesis
  proof (cases res)
    case (Inl x)
    then show ?thesis using assms f s by (simp add: analyse_def Let_def)
  next
    case (Inr items)
    show ?thesis
    proof (cases "filter_best_items (py_hash e) items")
      case (Inl x)
      then show ?thesis using assms f s Inr by (simp add: analyse_def Let_def)
    next
      case best: (Inr best)
      let ?w = "compute_ndvi_workflow e best (first # rest) (tr2 @ [St (Info_best_scenes (length best))])"
      obtain r tr3 where w: "?w = (r, tr3)" by (cases ?w)
      from compute_ndvi_workflow_extends [of e best "first # rest" "tr2 @ [St (Info_best_scenes (length best))]"]
      obtain more where "tr3 = (tr2 @ [St (Info_best_scenes (length best))]) @ more"
        by (auto simp: w)
      then have s3: "Catalog_search \<in> set tr3" using s by simp
      show ?thesis using assms f s s3 Inr best w
        by (auto simp: analyse_def Let_def split: sum.split option.split)
    qed
  qed
qed

text \<open>
  Claim C5, as amended.  The area that is validated is that of the first feature of the
  area of interest, in the equal-area system and divided by \<open>10\<^sup>6\<close> to give square
  kilometres; it is the area of the whole when there is one feature.  When it exceeds the
  limit of 500, the run shows the message that the area exceeds the limit and stops; its
  whole trace is the display of the geometry and that message, so neither the catalog
  search nor any reading of rasters took place.  When it is within the limit, the catalog
  is searched.
\<close>

theorem area_gate_before_search:
  assumes "load_aoi inp [] = (Through (first # rest), [])"
  shows "(MAX_AREA_KM2 < area_6933 first / 1000000 \<longrightarrow>
            run_analysis e inp =
              (Stopped, [St Show_aoi, St (Error_area_exceeded (area_6933 first / 1000000))])
            \<and> Catalog_search \<notin> set (snd (run_analysis e inp))
            \<and> Read_rasters \<notin> set (snd (run_analysis e inp)))
       \<and> (area_6933 first / 1000000 \<le> MAX_AREA_KM2 \<longrightarrow>
            Catalog_search \<in> set (snd (run_analysis e inp)))
       \<and> MAX_AREA_KM2 = 500"
proof (intro conjI impI)
  assume big: "MAX_AREA_KM2 < area_6933 first / 1000000"
  show r: "run_analysis e inp =
      (Stopped, [St Show_aoi, St (Error_area_exceeded (area_6933 first / 1000000))])"
    using assms analyse_area_exceeded [OF big, of e inp rest "[]"]
    by (simp add: run_analysis_def)
  show "Catalog_search \<notin> set (snd (run_analysis e inp))" by (simp add: r)
  show "Read_rasters \<notin> set (snd (run_analysis e inp))" by (simp add: r)
next
  assume "area_6933 first / 1000000 \<le> MAX_AREA_KM2"
  then have small: "\<not> area_6933 first / 1000000 > MAX_AREA_KM2" by simp
  obtain f tr where a: "analyse e inp (first # rest) [] = (f, tr)"
    by (cases "analyse e inp (first # rest) []")
  have "Catalog_search \<in> set tr"
    using analyse_area_within [OF small, of e inp rest "[]"] by (simp add: a)
  then show "Catalog_search \<in> set (snd (run_analysis e inp))"
    using assms a by (cases f) (simp_all add: run_analysis_def)
next
  show "MAX_AREA_KM2 = 500" by (simp add: MAX_AREA_KM2_def)
qed

theorem area_gate_before_search_witness:
  "run_analysis (sample_env True [[[(Finite 200, Finite 100)]]]) (sample_upload [900000000]) =
     (Stopped, [St Show_aoi, St (Error_area_exceeded 900)])
   \<and> Catalog_search \<in> set (snd (run_analysis (sample_env True [[[(Finite 200, Finite 100)]]])
                                  (sample_upload [100000000])))"
proof -
  let ?e = "sample_env True [[[(Finite 200, Finite 100)]]]"
  let ?big = "\<lparr>wkt = ''POLYGON'', area_6933 = 900000000\<rparr>"
  let ?small = "\<lparr>wkt = ''POLYGON'', area_6933 = 100000000\<rparr>"
  have 1: "load_aoi (sample_upload [900000000]) [] = (Through [?big], [])"
    by (simp add: load_aoi_def sample_upload_def)
  have 2: "load_aoi (sample_upload [100000000]) [] = (Through [?small], [])"
    by (simp add: load_aoi_def sample_upload_def)
  have big: "MAX_AREA_KM2 < area_6933 ?big / 1000000" by (simp add: MAX_AREA_KM2_def)
  have small: "area_6933 ?small / 1000000 \<le> MAX_AREA_KM2" by (simp add: MAX_AREA_KM2_def)
  have a: "area_6933 ?big / 1000000 = 900" by simp
  from area_gate_before_search [OF 1, of ?e] big
  have "run_analysis ?e (sample_upload [900000000]) =
          (Stopped, [St Show_aoi, St (Error_area_exceeded (area_6933 ?big / 1000000))])"
    by blast
  then have r1: "run_analysis ?e (sample_upload [900000000]) =
          (Stopped, [St Show_aoi, St (Error_area_exceeded 900)])"
    unfolding a .
  from area_gate_before_search [OF 2, of ?e] small
  have r2: "Catalog_search \<in> set (snd (run_analysis ?e (sample_upload [100000000])))"
    by blast
  from r1 r2 show ?thesis by blast
qed

lemma sample_workflow_result:
  "compute_ndvi_workflow (sample_env True [[[(Finite 200, Finite 100)]]])
       [scene ''S2A_T36'' (Some 5) 1 ''0103''] gdf tr =
     (Inr (Some \<lparr>ndvi_data = [[Finite (1 / 3)]], ndvi_img = [[Finite (1 / 3)]],
                  statistics = \<lparr>stat_mean = Finite (1 / 3), stat_min = Finite (1 / 3),
                                 stat_max = Finite (1 / 3)\<rparr>\<rparr>),
      tr @ [Read_rasters, Read_rasters])"
  by (simp add: compute_ndvi_workflow_def workflow_body_def sample_env_def Let_def
        compute_eq lazy_map_def lazy_bind_def ndvi_of_stack_cells fsub_def
        coarsen_mean_def nanmean_def extract_statistics_def eval_nat_numeral)

lemma sample_best_items:
  "filter_best_items sample_hash [scene ''S2A_T36'' (Some 5) 1 ''0103''] =
     Inr [scene ''S2A_T36'' (Some 5) 1 ''0103'']"
  by (simp add: filter_best_items_def row_of_def scene_def groupby_idxmin_def
      group_idxmin_def upt_conv_Cons)

lemma sample_fetch:
  "fetch_items (sample_env True pixels) gdf d1 d2 limit tr =
     (Inr [scene ''S2A_T36'' (Some 5) 1 ''0103''],
      tr @ [Catalog_search, St (Write_available_images 1)])"
  by (simp add: fetch_items_def sample_env_def)

lemma sample_py_hash: "py_hash (sample_env b pixels) = sample_hash"
  by (simp add: sample_env_def)

text \<open>
  Claim C5, as stated, fails: for an upload of two features of 100 and 900 square
  kilometres the area of the whole is at least 900, over the limit, and the run is not
  stopped: the catalog is searched and the rasters are read.
\<close>

theorem whole_aoi_area_counterexample:
  "area_6933 \<lparr>wkt = ''POLYGON'', area_6933 = 900000000\<rparr> / 1000000 = 900
   \<and> MAX_AREA_KM2 < 900
   \<and> fst (run_analysis (sample_env True [[[(Finite 200, Finite 100)]]])
            (sample_upload [100000000, 900000000])) = Through ()
   \<and> Catalog_search \<in> set (snd (run_analysis (sample_env True [[[(Finite 200, Finite 100)]]])
                                  (sample_upload [100000000, 900000000])))
   \<and> Read_rasters \<in> set (snd (run_analysis (sample_env True [[[(Finite 200, Finite 100)]]])
                                (sample_upload [100000000, 900000000])))"
proof -
  let ?e = "sample_env True [[[(Finite 200, Finite 100)]]]"
  let ?f1 = "\<lparr>wkt = ''POLYGON'', area_6933 = 100000000\<rparr>"
  let ?f2 = "\<lparr>wkt = ''POLYGON'', area_6933 = 900000000\<rparr>"
  let ?inp = "sample_upload [100000000, 900000000]"
  have load: "load_aoi ?inp [] = (Through [?f1, ?f2], [])"
    by (simp add: load_aoi_def sample_upload_def)
  have small: "\<not> area_6933 ?f1 / 1000000 > MAX_AREA_KM2" by (simp add: MAX_AREA_KM2_def)
  have "\<exists>tr. analyse ?e ?inp [?f1, ?f2] [] = (Through (), tr)
          \<and> Catalog_search \<in> set tr \<and> Read_rasters \<in> set tr"
    using small
    by (simp add: analyse_def Let_def sample_fetch sample_py_hash sample_best_items
        sample_workflow_result)
  then obtain tr where a: "analyse ?e ?inp [?f1, ?f2] [] = (Through (), tr)"
    and s: "Catalog_search \<in> set tr" and r: "Read_rasters \<in> set tr" by blast
  have run: "run_analysis ?e ?inp = (Through (), tr)"
    by (simp add: run_analysis_def load a)
  have "area_6933 ?f2 / 1000000 = 900" by simp
  moreover have "MAX_AREA_KM2 < 900" by (simp add: MAX_AREA_KM2_def)
  ultimately show ?thesis using run s r by simp
qed

text \<open>
  Claim C9.  For an area of interest of several features, the validation looks at the
  first feature alone: the catalog is searched exactly when the area of the first feature
  is within the limit, and the run stops on the area message exactly when the first
  feature exceeds it, whatever the other features are.  In particular the run passes
  validation when the areas of all features add up to more than the limit and the first
  is within it.
\<close>

theorem only_first_feature_validated:
  assumes "load_aoi inp [] = (Through (first # rest), [])"
  shows "(Catalog_search \<in> set (snd (run_analysis e inp)) \<longleftrightarrow>
            area_6933 first / 1000000 \<le> MAX_AREA_KM2)
       \<and> (MAX_AREA_KM2 < area_6933 first / 1000000 \<longleftrightarrow>
            run_analysis e inp =
              (Stopped, [St Show_aoi, St (Error_area_exceeded (area_6933 first / 1000000))]))
       \<and> (area_6933 first / 1000000 \<le> MAX_AREA_KM2 \<longrightarrow>
            MAX_AREA_KM2 < sum_list (map area_6933 (first # rest)) / 1000000 \<longrightarrow>
            Catalog_search \<in> set (snd (run_analysis e inp)))"
proof -
  obtain f tr where a: "analyse e inp (first # rest) [] = (f, tr)"
    by (cases "analyse e inp (first # rest) []")
  have run: "run_analysis e inp =
     (case f of Raised x \<Rightarrow> (Through (), tr @ [St (Error_analysis x)]) | _ \<Rightarrow> (f, tr))"
    using assms a by (cases f) (simp_all add: run_analysis_def)
  have within: "Catalog_search \<in> set (snd (run_analysis e inp))"
    if "area_6933 first / 1000000 \<le> MAX_AREA_KM2"
  proof -
    from that have "\<not> area_6933 first / 1000000 > MAX_AREA_KM2" by simp
    from analyse_area_within [OF this, of e inp rest "[]"] have "Catalog_search \<in> set tr"
      by (simp add: a)
    then show ?thesis unfolding run by (cases f) simp_all
  qed
  have exceeded: "run_analysis e inp =
      (Stopped, [St Show_aoi, St (Error_area_exceeded (area_6933 first / 1000000))])"
    if "MAX_AREA_KM2 < area_6933 first / 1000000"
    using analyse_area_exceeded [OF that, of e inp rest "[]"] a run by simp
  have 1: "Catalog_search \<in> set (snd (run_analysis e inp)) \<longleftrightarrow>
            area_6933 first / 1000000 \<le> MAX_AREA_KM2"
  proof
    assume s: "Catalog_search \<in> set (snd (run_analysis e inp))"
    show "area_6933 first / 1000000 \<le> MAX_AREA_KM2"
    proof (rule ccontr)
      assume "\<not> area_6933 first / 1000000 \<le> MAX_AREA_KM2"
      then have "MAX_AREA_KM2 < area_6933 first / 1000000" by simp
      from exceeded [OF this] s show False by simp
    qed
  qed (rule within)
  have 2: "MAX_AREA_KM2 < area_6933 first / 1000000 \<longleftrightarrow>
            run_analysis e inp =
              (Stopped, [St Show_aoi, St (Error_area_exceeded (area_6933 first / 1000000))])"
  proof
    assume r: "run_analysis e inp =
              (Stopped, [St Show_aoi, St (Error_area_exceeded (area_6933 first / 1000000))])"
    show "MAX_AREA_KM2 < area_6933 first / 1000000"
    proof (rule ccontr)
      assume "\<not> MAX_AREA_KM2 < area_6933 first / 1000000"
      then have "area_6933 first / 1000000 \<le> MAX_AREA_KM2" by simp
      from within [OF this] r show False by simp
    qed
  qed (rule exceeded)
  from 1 2 within show ?thesis by blast
qed

theorem only_first_feature_validated_witness:
  "sum_list (map area_6933 [\<lparr>wkt = ''POLYGON'', area_6933 = 400000000\<rparr>,
                            \<lparr>wkt = ''POLYGON'', area_6933 = 400000000\<rparr>]) / 1000000 = 800
   \<and> MAX_AREA_KM2 < 800
   \<and> Catalog_search \<in> set (snd (run_analysis (sample_env True [[[(Finite 200, Finite 100)]]])
                                  (sample_upload [400000000, 400000000])))"
proof -
  let ?e = "sample_env True [[[(Finite 200, Finite 100)]]]"
  let ?f = "\<lparr>wkt = ''POLYGON'', area_6933 = 400000000\<rparr>"
  have 1: "load_aoi (sample_upload [400000000, 400000000]) [] = (Through (?f # [?f]), [])"
    by (simp add: load_aoi_def sample_upload_def)
  have small: "area_6933 ?f / 1000000 \<le> MAX_AREA_KM2" by (simp add: MAX_AREA_KM2_def)
  have total: "sum_list (map area_6933 [?f, ?f]) / 1000000 = 800" by simp
  have lim: "MAX_AREA_KM2 < 800" by (simp add: MAX_AREA_KM2_def)
  from only_first_feature_validated [OF 1, of ?e] small
  have "Catalog_search \<in> set (snd (run_analysis ?e (sample_upload [400000000, 400000000])))"
    by blast
  with total lim show ?thesis by blast
qed

section \<open>The two materializations\<close>

lemma workflow_body_success:
  assumes "workflow_body e items gdf tr = (Inr (Some r), tr')"
  shows "tr' = tr @ [Read_rasters, Read_rasters]
       \<and> (\<exists>signed clipped s1 s2 c1.
             traverse (sign e) items = Inr signed
           \<and> stack_clip e signed gdf = Inr clipped
           \<and> clipped (count_list tr Read_rasters) = Inr s1
           \<and> clipped (Suc (count_list tr Read_rasters)) = Inr s2
           \<and> max_time (ndvi_of_stack s1) = Inr c1
           \<and> ndvi_img r = coarsen_mean c1
           \<and> max_time (ndvi_of_stack s2) = Inr (ndvi_data r)
           \<and> extract_statistics (ndvi_data r) = Inr (Some (statistics r)))"
proof -
  from assms obtain signed where s: "traverse (sign e) items = Inr signed"
    by (cases "traverse (sign e) items") (simp_all add: workflow_body_def)
  from assms s obtain clipped where c: "stack_clip e signed gdf = Inr clipped"
    by (cases "stack_clip e signed gdf") (simp_all add: workflow_body_def)
  let ?n = "count_list tr Read_rasters"
  from assms s c obtain s1 where s1: "clipped ?n = Inr s1"
    by (cases "clipped ?n")
       (simp_all add: workflow_body_def Let_def compute_eq lazy_map_def lazy_bind_def)
  from assms s c s1 obtain c1 where c1: "max_time (ndvi_of_stack s1) = Inr c1"
    by (cases "max_time (ndvi_of_stack s1)")
       (simp_all add: workflow_body_def Let_def compute_eq lazy_map_def lazy_bind_def)
  from assms s c s1 c1 obtain s2 where s2: "clipped (Suc ?n) = Inr s2"
    by (cases "clipped (Suc ?n)")
       (simp_all add: workflow_body_def Let_def compute_eq lazy_map_def lazy_bind_def)
  from assms s c s1 c1 s2 obtain c2 where c2: "max_time (ndvi_of_stack s2) = Inr c2"
    by (cases "max_time (ndvi_of_stack s2)")
       (simp_all add: workflow_body_def Let_def compute_eq lazy_map_def lazy_bind_def)
  from assms s c s1 c1 s2 c2 obtain st where st: "extract_statistics c2 = Inr (Some st)"
    by (cases "extract_statistics c2")
       (auto simp: workflow_body_def Let_def compute_eq lazy_map_def lazy_bind_def
             split: option.splits)
  from assms s c s1 c1 s2 c2 st
  have r: "r = \<lparr>ndvi_data = c2, ndvi_img = coarsen_mean c1, statistics = st\<rparr>"
    and t: "tr' = tr @ [Read_rasters, Read_rasters]"
    by (simp_all add: workflow_body_def Let_def compute_eq lazy_map_def lazy_bind_def)
  show ?thesis using s c s1 c1 s2 c2 st r t by simp
qed

text \<open>
  Claim C1, as amended.  A run of the workflow that returns a result has made exactly two
  readings of the rasters, one for each \<^verbatim>\<open>compute\<close>: the first evaluates the graph of the
  preview, composite included, and the second evaluates the graph of the composite
  again.  The preview is the coarsened composite of the first reading; the data and the
  statistics are those of the composite of the second reading.  Where both readings
  return the same stack, the preview is the coarsened data.
\<close>

theorem composite_graph_evaluated_for_each_compute:
  assumes "compute_ndvi_workflow e items gdf tr = (Inr (Some r), tr')"
  shows "tr' = tr @ [Read_rasters, Read_rasters]
       \<and> (\<exists>signed clipped s1 s2 c1.
             traverse (sign e) items = Inr signed
           \<and> stack_clip e signed gdf = Inr clipped
           \<and> clipped (count_list tr Read_rasters) = Inr s1
           \<and> clipped (Suc (count_list tr Read_rasters)) = Inr s2
           \<and> max_time (ndvi_of_stack s1) = Inr c1
           \<and> ndvi_img r = coarsen_mean c1
           \<and> max_time (ndvi_of_stack s2) = Inr (ndvi_data r)
           \<and> extract_statistics (ndvi_data r) = Inr (Some (statistics r))
           \<and> (s1 = s2 \<longrightarrow> ndvi_img r = coarsen_mean (ndvi_data r)))"
proof -
  obtain res tr0 where b: "workflow_body e items gdf tr = (res, tr0)"
    by (cases "workflow_body e items gdf tr")
  from assms b have "res = Inr (Some r) \<and> tr0 = tr'"
    by (cases res) (simp_all add: compute_ndvi_workflow_def)
  with b have "workflow_body e items gdf tr = (Inr (Some r), tr')" by simp
  from workflow_body_success [OF this] show ?thesis by fastforce
qed

theorem composite_graph_evaluated_for_each_compute_witness:
  "compute_ndvi_workflow (sample_env True [[[(Finite 200, Finite 100)]]])
       [scene ''S2A_T36'' (Some 5) 1 ''0103''] [] [] =
     (Inr (Some \<lparr>ndvi_data = [[Finite (1 / 3)]], ndvi_img = [[Finite (1 / 3)]],
                  statistics = \<lparr>stat_mean = Finite (1 / 3), stat_min = Finite (1 / 3),
                                 stat_max = Finite (1 / 3)\<rparr>\<rparr>),
      [] @ [Read_rasters, Read_rasters])"
proof -
  let ?e = "sample_env True [[[(Finite 200, Finite 100)]]]"
  let ?r = "\<lparr>ndvi_data = [[Finite (1 / 3)]], ndvi_img = [[Finite (1 / 3)]],
              statistics = \<lparr>stat_mean = Finite (1 / 3), stat_min = Finite (1 / 3),
                             stat_max = Finite (1 / 3)\<rparr>\<rparr>"
  have "\<exists>tr'. compute_ndvi_workflow ?e [scene ''S2A_T36'' (Some 5) 1 ''0103''] [] [] =
          (Inr (Some ?r), tr')"
    by (simp add: compute_ndvi_workflow_def workflow_body_def sample_env_def Let_def
        compute_eq lazy_map_def lazy_bind_def ndvi_of_stack_cells fsub_def
        coarsen_mean_def nanmean_def extract_statistics_def eval_nat_numeral)
  then obtain tr' where w: "compute_ndvi_workflow ?e [scene ''S2A_T36'' (Some 5) 1 ''0103''] [] [] =
          (Inr (Some ?r), tr')" ..
  from composite_graph_evaluated_for_each_compute [OF w]
  have "tr' = [] @ [Read_rasters, Read_rasters]" by blast
  with w show ?thesis by simp
qed

text \<open>
  Claim C1, as stated, fails: on one scene with one valid cell the run that returns a
  result reads the rasters twice, not once.
\<close>

theorem composite_materialized_once_counterexample:
  "count_list (snd (compute_ndvi_workflow (sample_env True [[[(Finite 200, Finite 100)]]])
                      [scene ''S2A_T36'' (Some 5) 1 ''0103''] [] [])) Read_rasters = 2
   \<and> fst (compute_ndvi_workflow (sample_env True [[[(Finite 200, Finite 100)]]])
            [scene ''S2A_T36'' (Some 5) 1 ''0103''] [] []) =
       Inr (Some \<lparr>ndvi_data = [[Finite (1 / 3)]], ndvi_img = [[Finite (1 / 3)]],
                  statistics = \<lparr>stat_mean = Finite (1 / 3), stat_min = Finite (1 / 3),
                                 stat_max = Finite (1 / 3)\<rparr>\<rparr>)"
  by (simp add: compute_ndvi_workflow_def workflow_body_def sample_env_def Let_def
        compute_eq lazy_map_def lazy_bind_def ndvi_of_stack_cells fsub_def
        coarsen_mean_def nanmean_def extract_statistics_def eval_nat_numeral)

section \<open>Items without a cloud cover\<close>

lemma traverse_row_of_missing:
  "\<exists>it \<in> set items. eo_cloud_cover it = None \<Longrightarrow>
     traverse row_of items = Inl (KeyError ''eo:cloud_cover'')"
proof (induction items)
  case Nil
  then show ?case by simp
next
  case (Cons it items)
  show ?case
  proof (cases "eo_cloud_cover it")
    case None
    then show ?thesis by (simp add: row_of_def)
  next
    case (Some c)
    with Cons.prems have "\<exists>it \<in> set items. eo_cloud_cover it = None" by auto
    then have "traverse row_of items = Inl (KeyError ''eo:cloud_cover'')" by (rule Cons.IH)
    moreover have "row_of it = Inr (item_id it, c, wkb_hex it)" using Some by (simp add: row_of_def)
    ultimately show ?thesis by simp
  qed
qed

lemma traverse_row_of_present:
  "\<forall>it \<in> set items. eo_cloud_cover it \<noteq> None \<Longrightarrow>
     traverse row_of items =
       Inr (map (\<lambda>it. (item_id it, the (eo_cloud_cover it), wkb_hex it)) items)"
proof (induction items)
  case Nil
  then show ?case by simp
next
  case (Cons it items)
  then obtain c where c: "eo_cloud_cover it = Some c" by auto
  then have "row_of it = Inr (item_id it, c, wkb_hex it)" by (simp add: row_of_def)
  moreover have "traverse row_of items =
       Inr (map (\<lambda>it. (item_id it, the (eo_cloud_cover it), wkb_hex it)) items)"
    using Cons by simp
  ultimately show ?case using c by simp
qed

text \<open>
  Claim C3, as amended.  When an item of the sequence has no cloud-cover property, the
  selection raises KeyError for the missing key; no value is put in its place and no
  item is returned.
\<close>

theorem missing_cloud_cover_raises:
  assumes "\<exists>it \<in> set items. eo_cloud_cover it = None"
  shows "filter_best_items h items = Inl (KeyError ''eo:cloud_cover'')"
  using traverse_row_of_missing [OF assms] by (simp add: filter_best_items_def)

theorem missing_cloud_cover_raises_witness:
  "filter_best_items sample_hash
     [scene ''A'' (Some 5) 1 ''0103'', scene ''B'' None 2 ''0103''] =
     Inl (KeyError ''eo:cloud_cover'')"
proof -
  have "\<exists>it \<in> set [scene ''A'' (Some 5) 1 ''0103'', scene ''B'' None 2 ''0103''].
          eo_cloud_cover it = None"
    by (simp add: scene_def)
  then show ?thesis by (rule missing_cloud_cover_raises)
qed

lemma sample_hash_0103: "sample_hash ''0103'' = 1478596"
  by (simp add: sample_hash_def)

text \<open>
  Claim C3, as stated, fails: with a second scene that has no cloud cover the selection
  raises, where the same scene with a cloud cover of 100 is compared and dropped.
\<close>

theorem missing_cloud_cover_counterexample:
  "filter_best_items sample_hash
     [scene ''A'' (Some 100) 1 ''0103'', scene ''B'' None 2 ''0103''] =
     Inl (KeyError ''eo:cloud_cover'')
   \<and> filter_best_items sample_hash
     [scene ''A'' (Some 100) 1 ''0103'', scene ''B'' (Some 100) 2 ''0103''] =
     Inr [scene ''A'' (Some 100) 1 ''0103'']"
  by (simp add: filter_best_items_def row_of_def scene_def groupby_idxmin_def
      group_idxmin_def sample_hash_0103 upt_conv_Cons)

section \<open>The best scene of each footprint key\<close>

lemma idxmin_from_first_min:
  assumes "sorted_wrt (<) js" and "\<forall>j \<in> set js. b < j"
  shows "idxmin_from (b, c b) (map (\<lambda>j. (j, c j)) js) \<in> set (b # js)
       \<and> (\<forall>j \<in> set (b # js).
             (j < idxmin_from (b, c b) (map (\<lambda>j. (j, c j)) js) \<longrightarrow>
                c (idxmin_from (b, c b) (map (\<lambda>j. (j, c j)) js)) < c j)
           \<and> (idxmin_from (b, c b) (map (\<lambda>j. (j, c j)) js) \<le> j \<longrightarrow>
                c (idxmin_from (b, c b) (map (\<lambda>j. (j, c j)) js)) \<le> c j))"
  using assms
proof (induction js arbitrary: b)
  case Nil
  then show ?case by simp
next
  case (Cons j js)
  have sorted: "sorted_wrt (<) js" and above_j: "\<forall>i \<in> set js. j < i" and bj: "b < j"
    using Cons.prems by auto
  show ?case
  proof (cases "c j < c b")
    case True
    define l where "l = idxmin_from (j, c j) (map (\<lambda>j. (j, c j)) js)"
    have eq: "idxmin_from (b, c b) (map (\<lambda>j. (j, c j)) (j # js)) = l"
      using True by (simp add: l_def)
    from Cons.IH [OF sorted above_j]
    have mem: "l \<in> set (j # js)"
      and best: "\<forall>i \<in> set (j # js). (i < l \<longrightarrow> c l < c i) \<and> (l \<le> i \<longrightarrow> c l \<le> c i)"
      unfolding l_def by blast+
    have "j \<le> l" using mem above_j by auto
    have "c l \<le> c j"
    proof (cases "j < l")
      case True
      then have "c l < c j" using best by simp
      then show ?thesis by simp
    next
      case False
      then have "l = j" using \<open>j \<le> l\<close> by simp
      then show ?thesis by simp
    qed
    then have "c l < c b" using True by simp
    moreover have "b < l" using bj \<open>j \<le> l\<close> by simp
    ultimately show ?thesis unfolding eq using mem best by auto
  next
    case False
    define l where "l = idxmin_from (b, c b) (map (\<lambda>j. (j, c j)) js)"
    have eq: "idxmin_from (b, c b) (map (\<lambda>j. (j, c j)) (j # js)) = l"
      using False by (simp add: l_def)
    have above_b: "\<forall>i \<in> set js. b < i" using above_j bj by auto
    from Cons.IH [OF sorted above_b]
    have mem: "l \<in> set (b # js)"
      and best: "\<forall>i \<in> set (b # js). (i < l \<longrightarrow> c l < c i) \<and> (l \<le> i \<longrightarrow> c l \<le> c i)"
      unfolding l_def by blast+
    have "(j < l \<longrightarrow> c l < c j) \<and> (l \<le> j \<longrightarrow> c l \<le> c j)"
    proof (cases "l = b")
      case True
      then show ?thesis using False bj by auto
    next
      case ne: False
      then have "b < l" using mem above_b by auto
      then have "c l < c b" using best by simp
      then have "c l < c j" using False by simp
      then show ?thesis by simp
    qed
    then show ?thesis unfolding eq using mem best by auto
  qed
qed

lemma zip_upt_nth:
  "length ks = n \<Longrightarrow> length cs = n \<Longrightarrow>
     zip [0..<n] (zip ks cs) = map (\<lambda>i. (i, ks ! i, cs ! i)) [0..<n]"
  by (auto intro!: nth_equalityI)

lemma group_members:
  assumes "length cs = length ks"
  shows "map (\<lambda>(l, hk, c). (l, c))
           (filter (\<lambda>(l, hk, c). hk = k) (zip [0..<length ks] (zip ks cs)))
         = map (\<lambda>i. (i, cs ! i)) (filter (\<lambda>i. ks ! i = k) [0..<length ks])"
  using assms by (simp add: zip_upt_nth filter_map comp_def)

lemma group_idxmin_first_min:
  assumes len: "length cs = length ks" and k: "k \<in> set ks"
  defines "l \<equiv> group_idxmin (map (\<lambda>(l, hk, c). (l, c))
                  (filter (\<lambda>(l, hk, c). hk = k) (zip [0..<length ks] (zip ks cs))))"
  shows "l < length ks \<and> ks ! l = k
       \<and> (\<forall>j < length ks. ks ! j = k \<longrightarrow> (j < l \<longrightarrow> cs ! l < cs ! j) \<and> (l \<le> j \<longrightarrow> cs ! l \<le> cs ! j))"
proof -
  let ?is = "filter (\<lambda>i. ks ! i = k) [0..<length ks]"
  from k obtain i where "i < length ks" "ks ! i = k" by (auto simp: in_set_conv_nth)
  then have "i \<in> set ?is" by simp
  then obtain b js where idx: "?is = b # js" by (cases ?is) auto
  have "sorted_wrt (<) ?is" by (intro sorted_wrt_filter) simp
  then have sorted: "sorted_wrt (<) js" and above: "\<forall>j \<in> set js. b < j"
    unfolding idx by auto
  have l: "l = idxmin_from (b, cs ! b) (map (\<lambda>j. (j, cs ! j)) js)"
    unfolding l_def group_members [OF len] idx by (simp add: group_idxmin_def)
  from idxmin_from_first_min [OF sorted above, of "\<lambda>i. cs ! i"]
  have mem: "l \<in> set (b # js)"
    and best: "\<forall>j \<in> set (b # js). (j < l \<longrightarrow> cs ! l < cs ! j) \<and> (l \<le> j \<longrightarrow> cs ! l \<le> cs ! j)"
    unfolding l by blast+
  have set_is: "set (b # js) = {i. i < length ks \<and> ks ! i = k}"
    unfolding idx [symmetric] by auto
  show ?thesis using mem best unfolding set_is by blast
qed

lemma set_groupby_idxmin:
  assumes len: "length cs = length ks"
  shows "set (groupby_idxmin ks cs) =
           {i. i < length ks \<and>
               (\<forall>j < length ks. ks ! j = ks ! i \<longrightarrow>
                  (j < i \<longrightarrow> cs ! i < cs ! j) \<and> (i \<le> j \<longrightarrow> cs ! i \<le> cs ! j))}"
    (is "?L = ?R")
proof (intro set_eqI iffI)
  fix l assume "l \<in> ?L"
  then obtain k where k: "k \<in> set ks"
    and l: "l = group_idxmin (map (\<lambda>(l, hk, c). (l, c))
                  (filter (\<lambda>(l, hk, c). hk = k) (zip [0..<length ks] (zip ks cs))))"
    by (auto simp: groupby_idxmin_def)
  from group_idxmin_first_min [OF len k] show "l \<in> ?R" unfolding l [symmetric] by auto
next
  fix i assume i: "i \<in> ?R"
  then have k: "ks ! i \<in> set ks" by simp
  define l where "l = group_idxmin (map (\<lambda>(l, hk, c). (l, c))
                  (filter (\<lambda>(l, hk, c). hk = ks ! i) (zip [0..<length ks] (zip ks cs))))"
  from group_idxmin_first_min [OF len k]
  have l: "l < length ks" "ks ! l = ks ! i"
    and best: "\<forall>j < length ks. ks ! j = ks ! i \<longrightarrow> (j < l \<longrightarrow> cs ! l < cs ! j) \<and> (l \<le> j \<longrightarrow> cs ! l \<le> cs ! j)"
    unfolding l_def by blast+
  have "l = i"
  proof (rule ccontr)
    assume "l \<noteq> i"
    then consider "l < i" | "i < l" by linarith
    then show False
    proof cases
      case 1
      then have "cs ! i < cs ! l" using i l by auto
      moreover have "cs ! l \<le> cs ! i" using best i 1 by auto
      ultimately show False by simp
    next
      case 2
      then have "cs ! l < cs ! i" using best i by auto
      moreover have "cs ! i \<le> cs ! l" using i l 2 by auto
      ultimately show False by simp
    qed
  qed
  moreover have "l \<in> ?L" using k by (auto simp: groupby_idxmin_def l_def)
  ultimately show "i \<in> ?L" by simp
qed

lemma set_groupby_idxmin_first_min:
  "length cs = length ks \<Longrightarrow> set (groupby_idxmin ks cs) = {i. first_min_in_group ks cs i}"
  by (simp add: set_groupby_idxmin first_min_in_group_def)

lemma first_min_unique:
  assumes "first_min_in_group ks cs i" and "first_min_in_group ks cs l" and "ks ! i = ks ! l"
  shows "i = l"
proof (rule ccontr)
  assume "i \<noteq> l"
  then consider "l < i" | "i < l" by linarith
  then show False
  proof cases
    case 1
    then have "cs ! i < cs ! l" using assms by (auto simp: first_min_in_group_def)
    moreover have "cs ! l \<le> cs ! i" using assms 1 by (auto simp: first_min_in_group_def)
    ultimately show False by simp
  next
    case 2
    then have "cs ! l < cs ! i" using assms by (auto simp: first_min_in_group_def)
    moreover have "cs ! i \<le> cs ! l" using assms 2 by (auto simp: first_min_in_group_def)
    ultimately show False by simp
  qed
qed

lemma first_min_exists:
  assumes "length cs = length ks" and "k \<in> set ks"
  shows "\<exists>l. first_min_in_group ks cs l \<and> ks ! l = k"
proof -
  define l where "l = group_idxmin (map (\<lambda>(l, hk, c). (l, c))
                  (filter (\<lambda>(l, hk, c). hk = k) (zip [0..<length ks] (zip ks cs))))"
  from group_idxmin_first_min [OF assms]
  have l: "l < length ks" "ks ! l = k"
    and least: "\<forall>j < length ks. ks ! j = k \<longrightarrow>
                 (j < l \<longrightarrow> cs ! l < cs ! j) \<and> (l \<le> j \<longrightarrow> cs ! l \<le> cs ! j)"
    unfolding l_def by blast+
  have "first_min_in_group ks cs l"
    unfolding first_min_in_group_def l(2) using l(1) least by blast
  with l(2) show ?thesis by blast
qed

lemma filter_best_items_rows:
  "traverse row_of items = Inr rows \<Longrightarrow> rows \<noteq> [] \<Longrightarrow>
     filter_best_items h items =
       Inr (filter (\<lambda>it. item_id it \<in> set (map (\<lambda>l. fst (rows ! l))
                     (groupby_idxmin (map (\<lambda>(i, c, g). h g) rows) (map (\<lambda>(i, c, g). c) rows))))
              items)"
  by (simp add: filter_best_items_def Let_def)

lemma filter_best_items_first_min:
  fixes h :: "string \<Rightarrow> int" and items :: "item list"
  assumes ne: "items \<noteq> []" and present: "\<forall>it \<in> set items. eo_cloud_cover it \<noteq> None"
    and ids: "distinct (map item_id items)"
  defines "ks \<equiv> map (\<lambda>it. h (wkb_hex it)) items"
    and "cs \<equiv> map (\<lambda>it. the (eo_cloud_cover it)) items"
  shows "filter_best_items h items =
           Inr (filter (\<lambda>it. \<exists>i < length items. it = items ! i \<and> first_min_in_group ks cs i) items)"
proof -
  define rows where "rows = map (\<lambda>it. (item_id it, the (eo_cloud_cover it), wkb_hex it)) items"
  have rows: "traverse row_of items = Inr rows"
    unfolding rows_def using present by (rule traverse_row_of_present)
  have hs: "map (\<lambda>(i, c, g). h g) rows = ks" by (simp add: ks_def rows_def comp_def)
  have cl: "map (\<lambda>(i, c, g). c) rows = cs" by (simp add: cs_def rows_def comp_def)
  have len: "length cs = length ks" by (simp add: ks_def cs_def)
  have n: "length ks = length items" by (simp add: ks_def)
  have row_id: "fst (rows ! l) = item_id (items ! l)" if "l < length items" for l
    using that by (simp add: rows_def)
  define best where "best = groupby_idxmin ks cs"
  have best: "set best = {i. first_min_in_group ks cs i}"
    unfolding best_def using len by (rule set_groupby_idxmin_first_min)
  have sel: "item_id it \<in> set (map (\<lambda>l. fst (rows ! l)) best) \<longleftrightarrow>
               (\<exists>i < length items. it = items ! i \<and> first_min_in_group ks cs i)"
    if it: "it \<in> set items" for it
  proof
    assume "item_id it \<in> set (map (\<lambda>l. fst (rows ! l)) best)"
    then obtain l where "l \<in> set best" and idl: "item_id it = fst (rows ! l)"
      unfolding set_map image_iff by blast
    then have l: "first_min_in_group ks cs l" using best by simp
    then have ln: "l < length items" by (simp add: first_min_in_group_def n)
    then have id: "item_id it = item_id (items ! l)" using idl by (simp add: row_id)
    from it obtain i where i: "i < length items" "it = items ! i" by (auto simp: in_set_conv_nth)
    have "map item_id items ! i = map item_id items ! l" using id i ln by simp
    moreover have "(map item_id items ! i = map item_id items ! l) = (i = l)"
      using ids i ln by (intro nth_eq_iff_index_eq) simp_all
    ultimately have "i = l" by blast
    then show "\<exists>i < length items. it = items ! i \<and> first_min_in_group ks cs i"
      using i l by blast
  next
    assume "\<exists>i < length items. it = items ! i \<and> first_min_in_group ks cs i"
    then obtain i where i: "i < length items" "it = items ! i" "first_min_in_group ks cs i"
      by blast
    then have "i \<in> set best" using best by simp
    moreover have "item_id it = fst (rows ! i)" using i by (simp add: row_id)
    ultimately have "\<exists>l \<in> set best. item_id it = fst (rows ! l)" by blast
    then show "item_id it \<in> set (map (\<lambda>l. fst (rows ! l)) best)"
      unfolding set_map image_iff .
  qed
  have rne: "rows \<noteq> []" using ne by (simp add: rows_def)
  have "filter_best_items h items =
          Inr (filter (\<lambda>it. item_id it \<in> set (map (\<lambda>l. fst (rows ! l)) best)) items)"
    unfolding best_def hs [symmetric] cl [symmetric] using rows rne
    by (rule filter_best_items_rows)
  also have "filter (\<lambda>it. item_id it \<in> set (map (\<lambda>l. fst (rows ! l)) best)) items =
             filter (\<lambda>it. \<exists>i < length items. it = items ! i \<and> first_min_in_group ks cs i) items"
    by (rule filter_cong [OF refl]) (rule sel)
  finally show ?thesis .
qed

lemma first_min_split:
  fixes h :: "string \<Rightarrow> int"
  assumes "items = pre @ x # post"
  shows "first_min_in_group (map (\<lambda>it. h (wkb_hex it)) items)
           (map (\<lambda>it. the (eo_cloud_cover it)) items) (length pre) \<longleftrightarrow>
         (\<forall>y \<in> set pre. h (wkb_hex y) = h (wkb_hex x) \<longrightarrow>
            the (eo_cloud_cover x) < the (eo_cloud_cover y))
       \<and> (\<forall>y \<in> set post. h (wkb_hex y) = h (wkb_hex x) \<longrightarrow>
            the (eo_cloud_cover x) \<le> the (eo_cloud_cover y))"
    (is "?F \<longleftrightarrow> ?P \<and> ?Q")
proof -
  let ?k = "\<lambda>it. h (wkb_hex it)" and ?c = "\<lambda>it. the (eo_cloud_cover it)"
  let ?i = "length pre"
  have len: "?i < length items" by (simp add: assms)
  have at_i: "items ! ?i = x" by (simp add: assms)
  have F: "?F \<longleftrightarrow> (\<forall>j < length items. ?k (items ! j) = ?k x \<longrightarrow>
              (j < ?i \<longrightarrow> ?c x < ?c (items ! j)) \<and> (?i \<le> j \<longrightarrow> ?c x \<le> ?c (items ! j)))"
    using len at_i by (auto simp: first_min_in_group_def)
  show ?thesis
  proof
    assume f: ?F
    have ?P
    proof (intro ballI impI)
      fix y assume "y \<in> set pre" "?k y = ?k x"
      then obtain j where j: "j < ?i" "pre ! j = y" by (auto simp: in_set_conv_nth)
      then have "items ! j = y" and "j < length items" using len by (simp_all add: assms nth_append)
      with f [unfolded F, rule_format, of j] j \<open>?k y = ?k x\<close> show "?c x < ?c y" by simp
    qed
    moreover have ?Q
    proof (intro ballI impI)
      fix y assume "y \<in> set post" "?k y = ?k x"
      then obtain j where j: "j < length post" "post ! j = y" by (auto simp: in_set_conv_nth)
      then have "items ! (Suc (?i + j)) = y" and "Suc (?i + j) < length items"
        by (simp_all add: assms nth_append)
      with f [unfolded F, rule_format, of "Suc (?i + j)"] \<open>?k y = ?k x\<close>
      show "?c x \<le> ?c y" by simp
    qed
    ultimately show "?P \<and> ?Q" ..
  next
    assume pq: "?P \<and> ?Q"
    show ?F unfolding F
    proof (intro allI impI conjI)
      fix j assume "j < length items" "?k (items ! j) = ?k x" "j < ?i"
      then have "items ! j \<in> set pre" by (simp add: assms nth_append)
      with pq \<open>?k (items ! j) = ?k x\<close> show "?c x < ?c (items ! j)" by blast
    next
      fix j assume j: "j < length items" "?k (items ! j) = ?k x" "?i \<le> j"
      show "?c x \<le> ?c (items ! j)"
      proof (cases "j = ?i")
        case True
        then show ?thesis by (simp add: at_i)
      next
        case False
        then have "items ! j = post ! (j - Suc ?i)" and "j - Suc ?i < length post"
          using j by (auto simp: assms nth_append nth_Cons')
        then have "items ! j \<in> set post" by simp
        with pq j(2) show ?thesis by blast
      qed
    qed
  qed
qed

text \<open>
  Claim C2, as amended.  For a sequence of items that is not empty, in which every item
  has a cloud cover and no two items share an identifier, the selection returns a
  subsequence of the input (order kept, nothing new) that holds, for each footprint key
  among the items, exactly one item.  An item is selected exactly when every earlier item
  of its key has a strictly greater cloud cover and every later item of its key has a
  cloud cover at least as great: the item of least cloud cover, the first one in input
  order among equals.
\<close>

theorem best_scene_per_footprint_key:
  fixes h :: "string \<Rightarrow> int"
  assumes ne: "items \<noteq> []" and present: "\<forall>it \<in> set items. eo_cloud_cover it \<noteq> None"
    and ids: "distinct (map item_id items)"
  shows "\<exists>out. filter_best_items h items = Inr out
       \<and> subseq out items
       \<and> (\<forall>pre x post. items = pre @ x # post \<longrightarrow>
             (x \<in> set out \<longleftrightarrow>
                (\<forall>y \<in> set pre. h (wkb_hex y) = h (wkb_hex x) \<longrightarrow>
                   the (eo_cloud_cover x) < the (eo_cloud_cover y))
              \<and> (\<forall>y \<in> set post. h (wkb_hex y) = h (wkb_hex x) \<longrightarrow>
                   the (eo_cloud_cover x) \<le> the (eo_cloud_cover y))))
       \<and> (\<forall>x \<in> set items. \<exists>!y. y \<in> set out \<and> h (wkb_hex y) = h (wkb_hex x))"
proof -
  define ks where "ks = map (\<lambda>it. h (wkb_hex it)) items"
  define cs where "cs = map (\<lambda>it. the (eo_cloud_cover it)) items"
  define out where
    "out = filter (\<lambda>it. \<exists>i < length items. it = items ! i \<and> first_min_in_group ks cs i) items"
  have dist: "distinct items" using ids by (simp add: distinct_map)
  have res: "filter_best_items h items = Inr out"
    unfolding out_def ks_def cs_def using ne present ids by (rule filter_best_items_first_min)
  have sub: "subseq out items" unfolding out_def by (rule subseq_filter_left)
  have mem: "items ! i \<in> set out \<longleftrightarrow> first_min_in_group ks cs i" if "i < length items" for i
  proof
    assume "items ! i \<in> set out"
    then obtain l where l: "l < length items" "items ! i = items ! l" "first_min_in_group ks cs l"
      unfolding out_def by auto
    from l(2) have "i = l" using dist that l(1) by (simp add: nth_eq_iff_index_eq)
    with l(3) show "first_min_in_group ks cs i" by simp
  next
    assume "first_min_in_group ks cs i"
    then show "items ! i \<in> set out" unfolding out_def using that by auto
  qed
  have split: "\<forall>pre x post. items = pre @ x # post \<longrightarrow>
             (x \<in> set out \<longleftrightarrow>
                (\<forall>y \<in> set pre. h (wkb_hex y) = h (wkb_hex x) \<longrightarrow>
                   the (eo_cloud_cover x) < the (eo_cloud_cover y))
              \<and> (\<forall>y \<in> set post. h (wkb_hex y) = h (wkb_hex x) \<longrightarrow>
                   the (eo_cloud_cover x) \<le> the (eo_cloud_cover y)))"
  proof (intro allI impI)
    fix pre x post assume eq: "items = pre @ x # post"
    have "length pre < length items" and "items ! length pre = x" by (simp_all add: eq)
    then have "x \<in> set out \<longleftrightarrow> first_min_in_group ks cs (length pre)"
      using mem [of "length pre"] by simp
    also have "\<dots> \<longleftrightarrow> (\<forall>y \<in> set pre. h (wkb_hex y) = h (wkb_hex x) \<longrightarrow>
                   the (eo_cloud_cover x) < the (eo_cloud_cover y))
              \<and> (\<forall>y \<in> set post. h (wkb_hex y) = h (wkb_hex x) \<longrightarrow>
                   the (eo_cloud_cover x) \<le> the (eo_cloud_cover y))"
      unfolding ks_def cs_def using eq by (rule first_min_split)
    finally show "x \<in> set out \<longleftrightarrow>
                (\<forall>y \<in> set pre. h (wkb_hex y) = h (wkb_hex x) \<longrightarrow>
                   the (eo_cloud_cover x) < the (eo_cloud_cover y))
              \<and> (\<forall>y \<in> set post. h (wkb_hex y) = h (wkb_hex x) \<longrightarrow>
                   the (eo_cloud_cover x) \<le> the (eo_cloud_cover y))" .
  qed
  have len: "length cs = length ks" and n: "length ks = length items"
    by (simp_all add: ks_def cs_def)
  have key: "ks ! i = h (wkb_hex (items ! i))" if "i < length items" for i
    using that by (simp add: ks_def)
  have one: "\<forall>x \<in> set items. \<exists>!y. y \<in> set out \<and> h (wkb_hex y) = h (wkb_hex x)"
  proof
    fix x assume "x \<in> set items"
    then have "h (wkb_hex x) \<in> set ks" by (auto simp: ks_def)
    from first_min_exists [OF len this] obtain l
      where l: "first_min_in_group ks cs l" "ks ! l = h (wkb_hex x)" by blast
    then have ln: "l < length items" by (simp add: first_min_in_group_def n)
    have ex: "items ! l \<in> set out \<and> h (wkb_hex (items ! l)) = h (wkb_hex x)"
      using l ln by (simp add: mem key)
    show "\<exists>!y. y \<in> set out \<and> h (wkb_hex y) = h (wkb_hex x)"
    proof (rule ex1I [of _ "items ! l"])
      show "items ! l \<in> set out \<and> h (wkb_hex (items ! l)) = h (wkb_hex x)" by (rule ex)
    next
      fix y assume y: "y \<in> set out \<and> h (wkb_hex y) = h (wkb_hex x)"
      then have "y \<in> set items" unfolding out_def by simp
      then obtain i where i: "i < length items" "items ! i = y" by (auto simp: in_set_conv_nth)
      then have fi: "first_min_in_group ks cs i" using y mem by blast
      have ke: "ks ! i = ks ! l" using i y l(2) by (simp add: key)
      from fi l(1) ke have "i = l" by (rule first_min_unique)
      with i show "y = items ! l" by simp
    qed
  qed
  from res sub split one show ?thesis by blast
qed

theorem best_scene_per_footprint_key_witness:
  "\<exists>out. filter_best_items sample_hash
            [scene ''S1'' (Some 5) 2 ''0103'', scene ''S2'' (Some 5) 1 ''0103'',
             scene ''S3'' (Some 7) 3 ''0104''] = Inr out
       \<and> subseq out [scene ''S1'' (Some 5) 2 ''0103'', scene ''S2'' (Some 5) 1 ''0103'',
                      scene ''S3'' (Some 7) 3 ''0104'']
       \<and> scene ''S1'' (Some 5) 2 ''0103'' \<in> set out
       \<and> scene ''S2'' (Some 5) 1 ''0103'' \<notin> set out"
proof -
  let ?s1 = "scene ''S1'' (Some 5) 2 ''0103''"
  let ?s2 = "scene ''S2'' (Some 5) 1 ''0103''"
  let ?s3 = "scene ''S3'' (Some 7) 3 ''0104''"
  let ?items = "[?s1, ?s2, ?s3]"
  have ne: "?items \<noteq> []" by simp
  have present: "\<forall>it \<in> set ?items. eo_cloud_cover it \<noteq> None" by (simp add: scene_def)
  have ids: "distinct (map item_id ?items)" by (simp add: scene_def)
  from best_scene_per_footprint_key [OF ne present ids, of sample_hash]
  obtain out where res: "filter_best_items sample_hash ?items = Inr out"
    and sub: "subseq out ?items"
    and split: "\<And>pre x post. ?items = pre @ x # post \<Longrightarrow>
             (x \<in> set out \<longleftrightarrow>
                (\<forall>y \<in> set pre. sample_hash (wkb_hex y) = sample_hash (wkb_hex x) \<longrightarrow>
                   the (eo_cloud_cover x) < the (eo_cloud_cover y))
              \<and> (\<forall>y \<in> set post. sample_hash (wkb_hex y) = sample_hash (wkb_hex x) \<longrightarrow>
                   the (eo_cloud_cover x) \<le> the (eo_cloud_cover y)))"
    by blast
  have "?items = [] @ ?s1 # [?s2, ?s3]" by simp
  from split [OF this] have in1: "?s1 \<in> set out" by (simp add: scene_def)
  have "?items = [?s1] @ ?s2 # [?s3]" by simp
  from split [OF this] have out2: "?s2 \<notin> set out" by (simp add: scene_def)
  from res sub in1 out2 show ?thesis by blast
qed

text \<open>
  Claim C2, as stated, fails: of two scenes with one footprint and equal cloud cover the
  selection keeps the first of the input, though the second was acquired earlier.
\<close>

theorem tie_break_by_timestamp_counterexample:
  "filter_best_items sample_hash
     [scene ''B'' (Some 5) 2 ''0103'', scene ''A'' (Some 5) 1 ''0103''] =
     Inr [scene ''B'' (Some 5) 2 ''0103'']
   \<and> wkb_hex (scene ''A'' (Some 5) 1 ''0103'') = wkb_hex (scene ''B'' (Some 5) 2 ''0103'')
   \<and> eo_cloud_cover (scene ''A'' (Some 5) 1 ''0103'') = eo_cloud_cover (scene ''B'' (Some 5) 2 ''0103'')
   \<and> acquired (scene ''A'' (Some 5) 1 ''0103'') < acquired (scene ''B'' (Some 5) 2 ''0103'')"
  by (simp add: filter_best_items_def row_of_def scene_def groupby_idxmin_def
      group_idxmin_def sample_hash_0103 upt_conv_Cons)

end
